theory Spec2Isabelle
  imports Complex_Main
begin

section \<open>Python helpers\<close>

text \<open>
  Python slicing \<open>xs[a:b]\<close> for arbitrary integers: a negative bound counts from the
  end, and both bounds are clamped to the list.
\<close>

definition py_bound :: "nat \<Rightarrow> int \<Rightarrow> nat" where
  "py_bound n i = (if i < 0 then nat (max 0 (i + int n)) else min (nat i) n)"

definition py_slice :: "'a list \<Rightarrow> int \<Rightarrow> int \<Rightarrow> 'a list" where
  "py_slice xs a b =
     (let lo = py_bound (length xs) a; hi = py_bound (length xs) b
      in take (hi - lo) (drop lo xs))"

text \<open>\<open>xs[:n]\<close>.\<close>

definition py_prefix :: "'a list \<Rightarrow> int \<Rightarrow> 'a list" where
  "py_prefix xs n = take (py_bound (length xs) n) xs"

text \<open>The Python errors that the modelled expressions can raise.\<close>

datatype py_error = ZeroDivisionError | IndexError | ValueError | OverflowError

text \<open>\<open>xs[i]\<close>: a negative index counts from the end, an index out of range raises.\<close>

definition py_index :: "'a list \<Rightarrow> int \<Rightarrow> py_error + 'a" where
  "py_index xs i =
     (let n = int (length xs); j = (if i < 0 then i + n else i)
      in if 0 \<le> j \<and> j < n then Inr (xs ! nat j) else Inl IndexError)"

text \<open>\<open>a // b\<close> on integers.\<close>

definition py_floordiv :: "int \<Rightarrow> int \<Rightarrow> py_error + int" where
  "py_floordiv a b = (if b = 0 then Inl ZeroDivisionError else Inr (a div b))"

text \<open>A list comprehension whose element expression may raise: the first error wins.\<close>

fun comprehension :: "('a \<Rightarrow> py_error + 'b) \<Rightarrow> 'a list \<Rightarrow> py_error + 'b list" where
  "comprehension f [] = Inr []"
| "comprehension f (x # xs) =
     (case f x of
        Inl e \<Rightarrow> Inl e
      | Inr y \<Rightarrow> (case comprehension f xs of Inl e \<Rightarrow> Inl e | Inr ys \<Rightarrow> Inr (y # ys)))"

text \<open>\<open>range(n)\<close>.\<close>

definition py_range :: "int \<Rightarrow> int list" where
  "py_range n = map int [0..<nat n]"

section \<open>Numbers\<close>

text \<open>
  The elements of an embedding are the numbers that \<open>response.json()\<close> decodes: a
  Python \<open>int\<close>, which is unbounded, for a JSON number without fraction or exponent,
  and a Python \<open>float\<close> for any other. Integer arithmetic is exact.

  The arithmetic of floats belongs to the language, not to this repository, and is
  taken as a parameter: a type \<open>'f\<close> of float values with the literal \<open>0.0\<close>, the
  conversion of an integer in range, the four operations used here, the tests
  \<open>x == 0\<close> and \<open>x < 0\<close>, and \<open>list.sort(reverse=True, key=lambda x: x[0])\<close> on
  float keys. Nothing is assumed of them, so what is proved holds for every float
  arithmetic, whatever it does on overflow, on underflow and with NaN.
\<close>

datatype 'f number = PyInt int | PyFloat 'f

record 'f floats =
  f_zero :: 'f
  f_of_int :: "int \<Rightarrow> 'f"
  f_add :: "'f \<Rightarrow> 'f \<Rightarrow> 'f"
  f_mul :: "'f \<Rightarrow> 'f \<Rightarrow> 'f"
  f_div :: "'f \<Rightarrow> 'f \<Rightarrow> 'f"
  f_sqrt :: "'f \<Rightarrow> 'f"
  f_is_zero :: "'f \<Rightarrow> bool"
  f_is_negative :: "'f \<Rightarrow> bool"
  f_sort_reverse :: "('f \<times> nat \<times> string) list \<Rightarrow> ('f \<times> nat \<times> string) list"

text \<open>
  The conversion of an \<open>int\<close> to a \<open>float\<close> rounds to 53 significant bits, ties to
  even, and raises \<open>OverflowError\<close> when the rounded value does not fit a double: from
  \<open>2 ** 1024 - 2 ** 970\<close> on in absolute value.
\<close>

definition float_overflow :: "int \<Rightarrow> bool" where
  "float_overflow n = (\<bar>n\<bar> \<ge> 2 ^ 1024 - 2 ^ 970)"

definition to_float :: "'f floats \<Rightarrow> 'f number \<Rightarrow> py_error + 'f" where
  "to_float fl x =
     (case x of
        PyInt n \<Rightarrow> if float_overflow n then Inl OverflowError else Inr (f_of_int fl n)
      | PyFloat f \<Rightarrow> Inr f)"

text \<open>
  \<open>x * y\<close> and \<open>x + y\<close>: exact on two integers; otherwise both operands are converted
  to floats first.
\<close>

definition py_mul :: "'f floats \<Rightarrow> 'f number \<Rightarrow> 'f number \<Rightarrow> py_error + 'f number" where
  "py_mul fl x y =
     (case (x, y) of
        (PyInt a, PyInt b) \<Rightarrow> Inr (PyInt (a * b))
      | _ \<Rightarrow>
          (case to_float fl x of
             Inl e \<Rightarrow> Inl e
           | Inr a \<Rightarrow>
               (case to_float fl y of
                  Inl e \<Rightarrow> Inl e
                | Inr b \<Rightarrow> Inr (PyFloat (f_mul fl a b)))))"

definition py_add :: "'f floats \<Rightarrow> 'f number \<Rightarrow> 'f number \<Rightarrow> py_error + 'f number" where
  "py_add fl x y =
     (case (x, y) of
        (PyInt a, PyInt b) \<Rightarrow> Inr (PyInt (a + b))
      | _ \<Rightarrow>
          (case to_float fl x of
             Inl e \<Rightarrow> Inl e
           | Inr a \<Rightarrow>
               (case to_float fl y of
                  Inl e \<Rightarrow> Inl e
                | Inr b \<Rightarrow> Inr (PyFloat (f_add fl a b)))))"

text \<open>
  \<open>x / d\<close> for a float \<open>d\<close>: \<open>x\<close> is converted first, then a zero divisor raises.
\<close>

definition py_truediv :: "'f floats \<Rightarrow> 'f number \<Rightarrow> 'f \<Rightarrow> py_error + 'f" where
  "py_truediv fl x d =
     (case to_float fl x of
        Inl e \<Rightarrow> Inl e
      | Inr a \<Rightarrow> if f_is_zero fl d then Inl ZeroDivisionError else Inr (f_div fl a d))"

text \<open>
  \<open>math.sqrt(x)\<close>: the argument is converted to a float, and a negative one raises
  \<open>ValueError\<close>.
\<close>

definition py_sqrt :: "'f floats \<Rightarrow> 'f number \<Rightarrow> py_error + 'f" where
  "py_sqrt fl x =
     (case to_float fl x of
        Inl e \<Rightarrow> Inl e
      | Inr a \<Rightarrow> if f_is_negative fl a then Inl ValueError else Inr (f_sqrt fl a))"

text \<open>
  \<open>sum(a * b for a, b in pairs)\<close>: the generator is consumed one pair at a time, each
  product is computed and then added to the sum so far, which starts at the integer 0.
\<close>

fun sum_products ::
  "'f floats \<Rightarrow> 'f number \<Rightarrow> ('f number \<times> 'f number) list \<Rightarrow> py_error + 'f number" where
  "sum_products fl so_far [] = Inr so_far"
| "sum_products fl so_far ((a, b) # pairs) =
     (case py_mul fl a b of
        Inl e \<Rightarrow> Inl e
      | Inr p \<Rightarrow>
          (case py_add fl so_far p of
             Inl e \<Rightarrow> Inl e
           | Inr so_far' \<Rightarrow> sum_products fl so_far' pairs))"

section \<open>Quota planning (step 5 and the head of the loop of step 7)\<close>

text \<open>
  \<open>questions_per_type = max(1, num_questions // len(normalized_types))\<close> and
  \<open>remaining = num_questions % len(normalized_types)\<close>. Python's \<open>//\<close> and \<open>%\<close> are
  floor division and its remainder, as \<open>div\<close> and \<open>mod\<close> on \<open>int\<close> are.
\<close>

definition questions_per_type :: "int \<Rightarrow> 'a list \<Rightarrow> int" where
  "questions_per_type num_questions normalized_types =
     max 1 (num_questions div int (length normalized_types))"

definition remaining_init :: "int \<Rightarrow> 'a list \<Rightarrow> int" where
  "remaining_init num_questions normalized_types =
     num_questions mod int (length normalized_types)"

text \<open>
  The first four lines of the loop body: the number of questions asked for this type
  and the remainder left for the following types.
\<close>

definition questions_to_generate :: "int \<Rightarrow> int \<Rightarrow> int \<times> int" where
  "questions_to_generate per_type remaining =
     (if remaining > 0 then (per_type + 1, remaining - 1) else (per_type, remaining))"

text \<open>The quotas in the order of the types, as the loop computes them.\<close>

fun quota_walk :: "int \<Rightarrow> int \<Rightarrow> 'a list \<Rightarrow> int list" where
  "quota_walk per_type remaining [] = []"
| "quota_walk per_type remaining (q_type # rest) =
     (case questions_to_generate per_type remaining of
        (n, remaining') \<Rightarrow> n # quota_walk per_type remaining' rest)"

definition plan :: "int \<Rightarrow> 'a list \<Rightarrow> int list" where
  "plan num_questions normalized_types =
     quota_walk (questions_per_type num_questions normalized_types)
                (remaining_init num_questions normalized_types) normalized_types"

section \<open>Chunking\<close>

text \<open>
  The \<open>while\<close> loop of \<open>chunk_text\<close>. Nothing in the source bounds the number of
  iterations, so the loop is a partial function: \<open>None\<close> is a run that never returns.
\<close>

partial_function (option) chunk_loop ::
  "'a list \<Rightarrow> int \<Rightarrow> int \<Rightarrow> int \<Rightarrow> 'a list list \<Rightarrow> 'a list list option" where
  "chunk_loop text chunk_size overlap start chunks =
     (if start < int (length text) then
        (let end' = min (start + chunk_size) (int (length text));
             chunks' = chunks @ [py_slice text start end']
         in if end' \<ge> int (length text) then Some chunks'
            else chunk_loop text chunk_size overlap (end' - overlap) chunks')
      else Some chunks)"

declare chunk_loop.simps [code]

definition chunk_text :: "'a list \<Rightarrow> int \<Rightarrow> int \<Rightarrow> 'a list list option" where
  "chunk_text text chunk_size overlap =
     (if int (length text) \<le> chunk_size then Some [text]
      else chunk_loop text chunk_size overlap 0 [])"

text \<open>
  The windows that the loop visits when \<open>0 \<le> overlap < chunk_size\<close>: window \<open>k\<close>
  starts at \<open>k * (chunk_size - overlap)\<close> and ends \<open>chunk_size\<close> characters later, or
  at the end of the text. \<open>suffixes_joined chunks k\<close> is the concatenation of
  \<open>chunk[-k:]\<close> over the chunks, for \<open>k > 0\<close>.
\<close>

definition window_start :: "int \<Rightarrow> int \<Rightarrow> nat \<Rightarrow> int" where
  "window_start chunk_size overlap k = int k * (chunk_size - overlap)"

definition window_end :: "nat \<Rightarrow> int \<Rightarrow> int \<Rightarrow> nat \<Rightarrow> int" where
  "window_end len chunk_size overlap k =
     min (window_start chunk_size overlap k + chunk_size) (int len)"

definition window :: "'a list \<Rightarrow> int \<Rightarrow> int \<Rightarrow> nat \<Rightarrow> 'a list" where
  "window text chunk_size overlap k =
     py_slice text (window_start chunk_size overlap k)
                   (window_end (length text) chunk_size overlap k)"

definition num_chunks :: "nat \<Rightarrow> int \<Rightarrow> int \<Rightarrow> nat" where
  "num_chunks len chunk_size overlap =
     (if int len \<le> chunk_size then 1
      else nat ((int len - overlap + (chunk_size - overlap) - 1) div (chunk_size - overlap)))"

definition suffixes_joined :: "'a list list \<Rightarrow> nat \<Rightarrow> 'a list" where
  "suffixes_joined chunks k = concat (map (\<lambda>chunk. drop (length chunk - k) chunk) chunks)"


section \<open>The backends and the process state\<close>

text \<open>
  The exceptions of the HTTP client that the source names, each with its message
  (\<open>str(e)\<close>); everything else is \<open>OtherException\<close>.
\<close>

datatype exc = ConnectError string | TimeoutError string | OtherException string

text \<open>
  What a request to a backend comes to: the client raises, or the backend answers
  with a status code and a body, or nothing happens within any timeout. The body is
  JSON that does not decode to an object, an object without the field that is read,
  or an object with it.
\<close>

datatype 'a body = Undecodable | FieldAbsent | Field 'a

datatype 'a reply = Raises exc | Status int "'a body" | Hangs

text \<open>
  The state of the hosting process and of the two backends. \<open>embeddings_api_failed\<close>
  is the module global \<open>_embeddings_api_failed\<close> (initially false). The request logs
  hold what has been posted so far; \<open>embeddings_backend n\<close> and \<open>generate_backend n\<close>
  are what happens to the request posted after \<open>n\<close> earlier ones.
\<close>

record 'f world =
  embeddings_api_failed :: bool
  embeddings_posts :: "string list"
  embeddings_backend :: "nat \<Rightarrow> 'f number list reply"
  generate_posts :: "(string \<times> int \<times> bool \<times> string) list"
  generate_backend :: "nat \<Rightarrow> string reply"

section \<open>Embeddings and the circuit breaker\<close>

definition get_embedding :: "'f world \<Rightarrow> string \<Rightarrow> 'f number list \<times> 'f world" where
  "get_embedding w text =
     (if embeddings_api_failed w then ([], w)
      else
        let w' = w\<lparr>embeddings_posts := embeddings_posts w @ [py_prefix text 2000]\<rparr>
        in case embeddings_backend w (length (embeddings_posts w)) of
             Status code payload \<Rightarrow>
               if code = 200 then
                 (case payload of
                    Field embedding \<Rightarrow> (embedding, w')
                  | FieldAbsent \<Rightarrow> ([], w')
                  | Undecodable \<Rightarrow> ([], w'\<lparr>embeddings_api_failed := True\<rparr>))
               else ([], w'\<lparr>embeddings_api_failed := True\<rparr>)
           | Raises e \<Rightarrow> ([], w'\<lparr>embeddings_api_failed := True\<rparr>)
           | Hangs \<Rightarrow> ([], w'\<lparr>embeddings_api_failed := True\<rparr>))"

text \<open>
  An embedding request fails when the backend answers with a status other than 200
  or the call raises: the client raises, the request times out, or the body does not
  decode.
\<close>

definition embedding_fails :: "'f number list reply \<Rightarrow> bool" where
  "embedding_fails answer =
     (case answer of
        Status code payload \<Rightarrow> code \<noteq> 200 \<or> payload = Undecodable
      | Raises e \<Rightarrow> True
      | Hangs \<Rightarrow> True)"

text \<open>Embedding a sequence of texts one after the other, as successive calls do.\<close>

fun get_embeddings :: "'f world \<Rightarrow> string list \<Rightarrow> 'f number list list \<times> 'f world" where
  "get_embeddings w [] = ([], w)"
| "get_embeddings w (text # texts) =
     (case get_embedding w text of
        (embedding, w') \<Rightarrow>
          (case get_embeddings w' texts of (embeddings, w'') \<Rightarrow> (embedding # embeddings, w'')))"

section \<open>Cosine similarity\<close>

definition dot_product :: "'f floats \<Rightarrow> 'f number list \<Rightarrow> 'f number list \<Rightarrow> py_error + 'f number" where
  "dot_product fl vec1 vec2 = sum_products fl (PyInt 0) (zip vec1 vec2)"

definition magnitude :: "'f floats \<Rightarrow> 'f number list \<Rightarrow> py_error + 'f" where
  "magnitude fl vec =
     (case sum_products fl (PyInt 0) (map (\<lambda>a. (a, a)) vec) of
        Inl e \<Rightarrow> Inl e
      | Inr squares \<Rightarrow> py_sqrt fl squares)"

text \<open>
  The dot product and the two magnitudes are computed, in this order, before the
  magnitudes are compared with zero.
\<close>

definition cosine_similarity :: "'f floats \<Rightarrow> 'f number list \<Rightarrow> 'f number list \<Rightarrow> py_error + 'f" where
  "cosine_similarity fl vec1 vec2 =
     (if vec1 = [] \<or> vec2 = [] \<or> length vec1 \<noteq> length vec2 then Inr (f_zero fl)
      else
        case dot_product fl vec1 vec2 of
          Inl e \<Rightarrow> Inl e
        | Inr dot \<Rightarrow>
            (case magnitude fl vec1 of
               Inl e \<Rightarrow> Inl e
             | Inr magnitude1 \<Rightarrow>
                 (case magnitude fl vec2 of
                    Inl e \<Rightarrow> Inl e
                  | Inr magnitude2 \<Rightarrow>
                      if f_is_zero fl magnitude1 \<or> f_is_zero fl magnitude2 then Inr (f_zero fl)
                      else py_truediv fl dot (f_mul fl magnitude1 magnitude2))))"

section \<open>Retrieval of the relevant chunks\<close>

text \<open>The loop over \<open>enumerate(chunks)\<close> that embeds every chunk.\<close>

fun chunk_embeddings ::
  "'f world \<Rightarrow> nat \<Rightarrow> string list \<Rightarrow>
   (nat \<times> string \<times> 'f number list) list \<times> 'f world" where
  "chunk_embeddings w i [] = ([], w)"
| "chunk_embeddings w i (chunk # chunks) =
     (case get_embedding w chunk of
        (embedding, w') \<Rightarrow>
          (case chunk_embeddings w' (Suc i) chunks of
             (rest, w'') \<Rightarrow> ((i, chunk, embedding) # rest, w'')))"

definition similarities ::
  "'f floats \<Rightarrow> 'f number list \<Rightarrow> (nat \<times> string \<times> 'f number list) list \<Rightarrow>
   py_error + ('f \<times> nat \<times> string) list" where
  "similarities fl query_embedding embedded =
     comprehension
       (\<lambda>(idx, chunk, embedding).
          if embedding \<noteq> [] then
            (case cosine_similarity fl query_embedding embedding of
               Inl e \<Rightarrow> Inl e
             | Inr similarity \<Rightarrow> Inr (similarity, idx, chunk))
          else Inr (f_zero fl, idx, chunk))
       embedded"

text \<open>The fallback branch, taken when the query has no embedding.\<close>

definition evenly_distributed :: "string list \<Rightarrow> int \<Rightarrow> py_error + string list" where
  "evenly_distributed chunks top_k =
     (if int (length chunks) \<le> top_k then Inr chunks
      else
        case py_floordiv (int (length chunks)) top_k of
          Inl e \<Rightarrow> Inl e
        | Inr step \<Rightarrow> comprehension (\<lambda>i. py_index chunks (i * step)) (py_range top_k))"

definition retrieve_relevant_chunks ::
  "'f floats \<Rightarrow> 'f world \<Rightarrow> string list \<Rightarrow> string \<Rightarrow> int \<Rightarrow>
   (py_error + string list) \<times> 'f world" where
  "retrieve_relevant_chunks fl w chunks query top_k =
     (case get_embedding w query of
        (query_embedding, w') \<Rightarrow>
          if query_embedding = [] then (evenly_distributed chunks top_k, w')
          else
            case chunk_embeddings w' 0 chunks of
              (embedded, w'') \<Rightarrow>
                (case similarities fl query_embedding embedded of
                   Inl e \<Rightarrow> (Inl e, w'')
                 | Inr sims \<Rightarrow>
                     (Inr (map (\<lambda>(_, _, chunk). chunk) (py_prefix (f_sort_reverse fl sims) top_k)),
                      w'')))"

section \<open>Strings\<close>

text \<open>
  A Python \<open>str\<close> is modelled as a list of 8-bit characters, read as the code points
  below 256. \<open>is_space\<close> is \<open>str.isspace\<close> on one character, which is also what
  \<open>\s\<close> matches; \<open>py_lower_char\<close> is \<open>str.lower\<close> on one character.
\<close>

definition is_space :: "char \<Rightarrow> bool" where
  "is_space c =
     (let n = (of_char c :: nat)
      in (9 \<le> n \<and> n \<le> 13) \<or> (28 \<le> n \<and> n \<le> 32) \<or> n = 133 \<or> n = 160)"

definition py_lower_char :: "char \<Rightarrow> char" where
  "py_lower_char c =
     (let n = (of_char c :: nat)
      in if (65 \<le> n \<and> n \<le> 90) \<or> (192 \<le> n \<and> n \<le> 222 \<and> n \<noteq> 215)
         then char_of (n + 32) else c)"

definition py_lower :: "string \<Rightarrow> string" where
  "py_lower s = map py_lower_char s"

definition py_strip :: "string \<Rightarrow> string" where
  "py_strip s = rev (dropWhile is_space (rev (dropWhile is_space s)))"

definition newline :: char where
  "newline = CHR 0x0A"

text \<open>\<open>sep.join(xs)\<close>.\<close>

fun py_join :: "string \<Rightarrow> string list \<Rightarrow> string" where
  "py_join sep [] = []"
| "py_join sep [x] = x"
| "py_join sep (x # y # ys) = x @ sep @ py_join sep (y # ys)"

text \<open>\<open>str(n)\<close> for a natural number.\<close>

fun str_nat :: "nat \<Rightarrow> string" where
  "str_nat n =
     (if n < 10 then [char_of (48 + n)]
      else str_nat (n div 10) @ [char_of (48 + n mod 10)])"

section \<open>The regular expressions of the parser\<close>

text \<open>
  Every pattern is compiled with \<open>re.IGNORECASE\<close>, and those with a \<open>.\<close> also with
  \<open>re.DOTALL\<close>. A pattern letter matches a character when both have the same lower
  case; \<open>.\<close> matches every character.
\<close>

definition ci_eq :: "char \<Rightarrow> char \<Rightarrow> bool" where
  "ci_eq c p = (py_lower_char c = py_lower_char p)"

text \<open>The subject starts with the literal, letters compared without case.\<close>

fun starts_ci :: "string \<Rightarrow> string \<Rightarrow> bool" where
  "starts_ci [] s = True"
| "starts_ci (p # ps) [] = False"
| "starts_ci (p # ps) (c # cs) = (ci_eq c p \<and> starts_ci ps cs)"

text \<open>\<open>[A-D]\<close>.\<close>

definition is_A_to_D :: "char \<Rightarrow> bool" where
  "is_A_to_D c = (ci_eq c CHR ''A'' \<or> ci_eq c CHR ''B'' \<or> ci_eq c CHR ''C'' \<or> ci_eq c CHR ''D'')"

text \<open>\<open>\n[A-D]\)\<close> at the start of the subject.\<close>

fun starts_option :: "string \<Rightarrow> bool" where
  "starts_option (n # l # p # _) = (n = newline \<and> is_A_to_D l \<and> p = CHR '')'')"
| "starts_option _ = False"

text \<open>
  \<open>$\<close> without \<open>re.MULTILINE\<close>: the end of the subject, or just before a newline that
  ends it.
\<close>

definition at_end :: "string \<Rightarrow> bool" where
  "at_end s = (s = [] \<or> s = [newline])"

text \<open>The three lookaheads that close a captured group.\<close>

definition after_option :: "string \<Rightarrow> bool" where
  \<comment> \<open>\<open>(?=\n[A-D]\)|ANSWER:|Q:|$)\<close>\<close>
  "after_option s = (starts_option s \<or> starts_ci ''ANSWER:'' s \<or> starts_ci ''Q:'' s \<or> at_end s)"

definition after_statement :: "string \<Rightarrow> bool" where
  \<comment> \<open>\<open>(?=ANSWER:|Q:|$)\<close>\<close>
  "after_statement s = (starts_ci ''ANSWER:'' s \<or> starts_ci ''Q:'' s \<or> at_end s)"

definition after_answer :: "string \<Rightarrow> bool" where
  \<comment> \<open>\<open>(?=Q:|$)\<close>\<close>
  "after_answer s = (starts_ci ''Q:'' s \<or> at_end s)"

text \<open>
  \<open>(.+?)\<close> followed by a lookahead: the shortest non-empty prefix of the subject
  after which the lookahead holds.
\<close>

fun lazy_group :: "(string \<Rightarrow> bool) \<Rightarrow> string \<Rightarrow> string option" where
  "lazy_group ahead [] = None"
| "lazy_group ahead (c # cs) =
     (if ahead cs then Some [c] else map_option ((#) c) (lazy_group ahead cs))"

text \<open>
  \<open>\s*(.+?)\<close> followed by a lookahead: \<open>\s*\<close> first takes all the white space there
  is and gives it back one character at a time while the rest of the pattern fails.
  \<open>k\<close> is the number of characters that \<open>\s*\<close> currently holds.
\<close>

fun spaces_then_group :: "(string \<Rightarrow> bool) \<Rightarrow> string \<Rightarrow> nat \<Rightarrow> string option" where
  "spaces_then_group ahead s 0 = lazy_group ahead s"
| "spaces_then_group ahead s (Suc k) =
     (case lazy_group ahead (drop (Suc k) s) of
        Some g \<Rightarrow> Some g
      | None \<Rightarrow> spaces_then_group ahead s k)"

definition spaces_group :: "(string \<Rightarrow> bool) \<Rightarrow> string \<Rightarrow> string option" where
  "spaces_group ahead s = spaces_then_group ahead s (length (takeWhile is_space s))"

text \<open>
  \<open>re.search\<close> with \<open>{letter}\)\s*(.+?)(?=\n[A-D]\)|ANSWER:|Q:|$)\<close>: the group of the
  leftmost match.
\<close>

fun search_option :: "char \<Rightarrow> string \<Rightarrow> string option" where
  "search_option letter [] = None"
| "search_option letter (c # cs) =
     (if ci_eq c letter \<and> starts_ci '')'' cs then
        (case spaces_group after_option (tl cs) of
           Some g \<Rightarrow> Some g
         | None \<Rightarrow> search_option letter cs)
      else search_option letter cs)"

text \<open>
  An option is present in a segment when the segment holds its letter, in either
  case, directly followed by a closing parenthesis and at least one more character.
\<close>

fun option_present :: "char \<Rightarrow> string \<Rightarrow> bool" where
  "option_present letter (c # p # x # rest) =
     ((ci_eq c letter \<and> p = CHR '')'') \<or> option_present letter (p # x # rest))"
| "option_present letter _ = False"

text \<open>
  \<open>re.search\<close> with \<open>ANSWER:\s*([A-D])\<close>, \<open>ANSWER:\s*(True|False)\<close> and
  \<open>ANSWER:\s*(.+?)(?=Q:|$)\<close>. In the first two the group cannot start with white
  space, so \<open>\s*\<close> keeps all of it.
\<close>

fun search_answer_letter :: "string \<Rightarrow> string option" where
  "search_answer_letter [] = None"
| "search_answer_letter (c # cs) =
     (if starts_ci ''ANSWER:'' (c # cs) then
        (case dropWhile is_space (drop 7 (c # cs)) of
           l # _ \<Rightarrow> if is_A_to_D l then Some [l] else search_answer_letter cs
         | [] \<Rightarrow> search_answer_letter cs)
      else search_answer_letter cs)"

definition true_or_false :: "string \<Rightarrow> string option" where
  "true_or_false s =
     (if starts_ci ''True'' s then Some (take 4 s)
      else if starts_ci ''False'' s then Some (take 5 s)
      else None)"

fun search_answer_truth :: "string \<Rightarrow> string option" where
  "search_answer_truth [] = None"
| "search_answer_truth (c # cs) =
     (if starts_ci ''ANSWER:'' (c # cs) then
        (case true_or_false (dropWhile is_space (drop 7 (c # cs))) of
           Some g \<Rightarrow> Some g
         | None \<Rightarrow> search_answer_truth cs)
      else search_answer_truth cs)"

fun search_answer_text :: "string \<Rightarrow> string option" where
  "search_answer_text [] = None"
| "search_answer_text (c # cs) =
     (if starts_ci ''ANSWER:'' (c # cs) then
        (case spaces_group after_answer (drop 7 (c # cs)) of
           Some g \<Rightarrow> Some g
         | None \<Rightarrow> search_answer_text cs)
      else search_answer_text cs)"

text \<open>\<open>str.upper\<close> and \<open>str.capitalize\<close>, on the groups above (unaccented letters only).\<close>

definition py_upper_char :: "char \<Rightarrow> char" where
  "py_upper_char c =
     (let n = (of_char c :: nat) in if 97 \<le> n \<and> n \<le> 122 then char_of (n - 32) else c)"

definition py_capitalize :: "string \<Rightarrow> string" where
  "py_capitalize s = (case s of [] \<Rightarrow> [] | c # cs \<Rightarrow> py_upper_char c # py_lower cs)"

text \<open>
  \<open>re.split(r"\n?Q:\s*", response_text, flags=re.IGNORECASE)\<close>. \<open>part\<close> is the text
  read since the last separator.
\<close>

function split_questions :: "string \<Rightarrow> string \<Rightarrow> string list" where
  "split_questions part [] = [part]"
| "split_questions part (c # cs) =
     (if c = newline \<and> starts_ci ''Q:'' cs then
        part # split_questions [] (dropWhile is_space (drop 2 cs))
      else if starts_ci ''Q:'' (c # cs) then
        part # split_questions [] (dropWhile is_space (drop 1 cs))
      else split_questions (part @ [c]) cs)"
  by pat_completeness auto
termination
proof (relation "measure (\<lambda>(part, s). length s)")
  show "wf (measure (\<lambda>(part, s). length s))" by simp
next
  fix part :: string and c :: char and cs :: string
  have "length (dropWhile is_space (drop 2 cs)) \<le> length cs"
    by (rule order_trans[OF length_dropWhile_le]) simp
  then show "((([]::string), dropWhile is_space (drop 2 cs)), (part, c # cs))
              \<in> measure (\<lambda>(part, s). length s)" by simp
next
  fix part :: string and c :: char and cs :: string
  have "length (dropWhile is_space (drop 1 cs)) \<le> length cs"
    by (rule order_trans[OF length_dropWhile_le]) simp
  then show "((([]::string), dropWhile is_space (drop 1 cs)), (part, c # cs))
              \<in> measure (\<lambda>(part, s). length s)" by simp
next
  fix part :: string and c :: char and cs :: string
  show "((part @ [c], cs), (part, c # cs)) \<in> measure (\<lambda>(part, s). length s)" by simp
qed


section \<open>Parsing one segment\<close>

text \<open>
  The body of the \<open>try\<close> inside the loop over \<open>parts[1:]\<close>, one function for each
  question type: the formatted question that is appended to \<open>questions\<close>, or \<open>None\<close>
  when the segment adds nothing. The dictionary \<open>options\<close> is the list of its items
  in insertion order.
\<close>

definition parse_mcq :: "string \<Rightarrow> bool \<Rightarrow> string option" where
  "parse_mcq part include_answers =
     (case lazy_group starts_option part of
        None \<Rightarrow> None
      | Some q \<Rightarrow>
          let question_text = py_strip q;
              options = concat (map (\<lambda>letter.
                          case search_option letter part of
                            Some g \<Rightarrow> [(letter, py_strip g)]
                          | None \<Rightarrow> []) ''ABCD'')
          in if length options = 4 then
               let formatted = ''Question: '' @ question_text @ [newline] @
                     concat (map (\<lambda>(letter, opt). [letter] @ '') '' @ opt @ [newline]) options);
                   formatted' =
                     (if include_answers then
                        (case search_answer_letter part of
                           Some a \<Rightarrow> formatted @ ''Correct Answer: '' @ map py_upper_char a
                         | None \<Rightarrow> formatted)
                      else formatted)
               in Some (py_strip formatted')
             else None)"

definition parse_truefalse :: "string \<Rightarrow> bool \<Rightarrow> string option" where
  "parse_truefalse part include_answers =
     (case lazy_group after_statement part of
        None \<Rightarrow> None
      | Some g \<Rightarrow>
          let statement = py_strip g;
              formatted = ''Question: '' @ statement
          in Some (if include_answers then
                     (case search_answer_truth part of
                        Some a \<Rightarrow> formatted @ [newline] @ ''Answer: '' @ py_capitalize a
                      | None \<Rightarrow> formatted)
                   else formatted))"

definition parse_shortanswer :: "string \<Rightarrow> bool \<Rightarrow> string option" where
  "parse_shortanswer part include_answers =
     (case lazy_group after_statement part of
        None \<Rightarrow> None
      | Some g \<Rightarrow>
          let question_text = py_strip g;
              formatted = ''Question: '' @ question_text
          in Some (if include_answers then
                     (case search_answer_text part of
                        Some a \<Rightarrow> formatted @ [newline] @ ''Answer: '' @ py_strip a
                      | None \<Rightarrow> formatted)
                   else formatted))"

definition parse_part :: "string \<Rightarrow> bool \<Rightarrow> string \<Rightarrow> string option" where
  "parse_part q_type include_answers part =
     (if py_lower q_type = ''mcq'' then parse_mcq part include_answers
      else if py_lower q_type = ''truefalse'' then parse_truefalse part include_answers
      else parse_shortanswer part include_answers)"

text \<open>The loop over \<open>parts[1:]\<close>; a segment of white space only is skipped.\<close>

fun parse_parts :: "string \<Rightarrow> bool \<Rightarrow> string list \<Rightarrow> string list" where
  "parse_parts q_type include_answers [] = []"
| "parse_parts q_type include_answers (part # parts) =
     (if py_strip part = [] then parse_parts q_type include_answers parts
      else
        case parse_part q_type include_answers part of
          Some formatted \<Rightarrow> formatted # parse_parts q_type include_answers parts
        | None \<Rightarrow> parse_parts q_type include_answers parts)"

definition parse_response :: "string \<Rightarrow> bool \<Rightarrow> string \<Rightarrow> string list" where
  "parse_response q_type include_answers response_text =
     parse_parts q_type include_answers (tl (split_questions [] response_text))"

section \<open>Generating one batch\<close>

text \<open>
  The \<open>try\<close> block of the inner function \<open>_generate\<close>: \<open>Inl\<close> is an exception that
  leaves the block, \<open>None\<close> a request that is still pending when the outer
  \<open>asyncio.wait_for\<close> gives up. An undecodable body raises inside the block (its
  message is only printed).
\<close>

definition generate_try :: "string reply \<Rightarrow> string \<Rightarrow> int \<Rightarrow> bool \<Rightarrow> (exc + string list) option" where
  "generate_try answer q_type num_questions include_answers =
     (case answer of
        Hangs \<Rightarrow> None
      | Raises e \<Rightarrow> Some (Inl e)
      | Status code payload \<Rightarrow>
          if code = 404 then Some (Inr [])
          else if code \<noteq> 200 then Some (Inr [])
          else
            (case payload of
               Undecodable \<Rightarrow> Some (Inl (OtherException []))
             | FieldAbsent \<Rightarrow>
                 Some (Inr (py_prefix (parse_response q_type include_answers []) num_questions))
             | Field response_text \<Rightarrow>
                 Some (Inr (py_prefix (parse_response q_type include_answers response_text)
                              num_questions))))"

text \<open>\<open>_generate\<close> with its three \<open>except\<close> clauses.\<close>

definition generate_inner :: "string reply \<Rightarrow> string \<Rightarrow> int \<Rightarrow> bool \<Rightarrow> (exc + string list) option" where
  "generate_inner answer q_type num_questions include_answers =
     (case generate_try answer q_type num_questions include_answers of
        None \<Rightarrow> None
      | Some (Inr questions) \<Rightarrow> Some (Inr questions)
      | Some (Inl (ConnectError m)) \<Rightarrow> Some (Inr [])
      | Some (Inl (TimeoutError m)) \<Rightarrow> Some (Inr [])
      | Some (Inl (OtherException m)) \<Rightarrow> Some (Inr []))"

text \<open>
  \<open>generate_question_batch\<close>: the request is logged with what the prompt is built
  from; then \<open>asyncio.wait_for\<close> and its three \<open>except\<close> clauses, of which the second
  raises the connection error again.
\<close>

definition generate_question_batch ::
  "'f world \<Rightarrow> string \<Rightarrow> string \<Rightarrow> int \<Rightarrow> string set \<Rightarrow> bool \<Rightarrow> int \<Rightarrow>
   (exc + string list) \<times> 'f world" where
  "generate_question_batch w chunk q_type num_questions previous_questions include_answers timeout =
     (let w' = w\<lparr>generate_posts := generate_posts w @
                   [(q_type, num_questions, include_answers, py_prefix chunk 1500)]\<rparr>
      in case generate_inner (generate_backend w (length (generate_posts w)))
                q_type num_questions include_answers of
           None \<Rightarrow> (Inr [], w')
         | Some (Inl (ConnectError m)) \<Rightarrow> (Inl (ConnectError m), w')
         | Some (Inl e) \<Rightarrow> (Inr [], w')
         | Some (Inr questions) \<Rightarrow> (Inr questions, w'))"

section \<open>The pipeline\<close>

text \<open>\<open>s.split(",")\<close>; \<open>part\<close> is the text read since the last comma.\<close>

fun split_comma :: "string \<Rightarrow> string \<Rightarrow> string list" where
  "split_comma part [] = [part]"
| "split_comma part (c # cs) =
     (if c = CHR '','' then part # split_comma [] cs else split_comma (part @ [c]) cs)"

definition type_mapping :: "(string \<times> string) list" where
  "type_mapping =
     [(''mcq'', ''mcq''), (''multiplechoice'', ''mcq''), (''truefalse'', ''truefalse''),
      (''trueFalse'', ''truefalse''), (''true/false'', ''truefalse''), (''tf'', ''truefalse''),
      (''shortanswer'', ''shortanswer''), (''shortAnswer'', ''shortanswer''),
      (''short'', ''shortanswer''), (''sa'', ''shortanswer'')]"

fun normalize_types :: "string list \<Rightarrow> string list \<Rightarrow> string list" where
  "normalize_types normalized_types [] = normalized_types"
| "normalize_types normalized_types (qtype # rest) =
     (let normalized = (case map_of type_mapping qtype of Some t \<Rightarrow> t | None \<Rightarrow> qtype)
      in if normalized \<notin> set normalized_types
         then normalize_types (normalized_types @ [normalized]) rest
         else normalize_types normalized_types rest)"

text \<open>The variables of the loop of step 7.\<close>

record generation =
  all_questions :: "string list"
  previous_questions :: "string set"
  connection_errors :: "string list"
  remaining :: int

text \<open>
  The loop of step 7 over \<open>normalized_types\<close>: the quota of the type, the call of
  \<open>generate_question_batch\<close>, and the two \<open>except\<close> clauses around it.
\<close>

fun generate_per_type ::
  "'f world \<Rightarrow> string \<Rightarrow> bool \<Rightarrow> int \<Rightarrow> generation \<Rightarrow> string list \<Rightarrow>
   generation \<times> 'f world" where
  "generate_per_type w context_text include_answers per_type g [] = (g, w)"
| "generate_per_type w context_text include_answers per_type g (q_type # rest) =
     (case questions_to_generate per_type (remaining g) of
        (n, remaining') \<Rightarrow>
          (case generate_question_batch w context_text q_type n (previous_questions g)
                  include_answers 120 of
             (Inr batch_questions, w') \<Rightarrow>
               generate_per_type w' context_text include_answers per_type
                 (g\<lparr>remaining := remaining',
                    previous_questions :=
                      previous_questions g \<union> set (map (\<lambda>q. py_prefix q 100) batch_questions),
                    all_questions := all_questions g @ batch_questions\<rparr>) rest
           | (Inl (ConnectError m), w') \<Rightarrow>
               generate_per_type w' context_text include_answers per_type
                 (g\<lparr>remaining := remaining',
                    connection_errors :=
                      connection_errors g @ [''Cannot connect to Ollama service: '' @ m]\<rparr>) rest
           | (Inl e, w') \<Rightarrow>
               generate_per_type w' context_text include_answers per_type
                 (g\<lparr>remaining := remaining'\<rparr>) rest))"

text \<open>The response of the endpoint, and the status code of the exception it raises.\<close>

record response =
  questions :: string
  count :: nat
  types :: "string list"
  include_answers :: bool

datatype http_exception = HTTPException int

text \<open>\<open>f"{i+1}. {q}"\<close> for \<open>i, q\<close> in \<open>enumerate(all_questions)\<close>, from index \<open>i\<close> on.\<close>

fun numbered :: "nat \<Rightarrow> string list \<Rightarrow> string list" where
  "numbered i [] = []"
| "numbered i (q # qs) = (str_nat (i + 1) @ ''. '' @ q) # numbered (Suc i) qs"

text \<open>Step 8.\<close>

definition format_results :: "generation \<Rightarrow> string list \<Rightarrow> bool \<Rightarrow> http_exception + response" where
  "format_results g normalized_types with_answers =
     (if all_questions g = [] then
        (if connection_errors g \<noteq> [] then Inl (HTTPException 503)
         else Inl (HTTPException 500))
      else Inr \<lparr>questions = py_join [newline, newline] (numbered 0 (all_questions g)),
               count = length (all_questions g),
               types = normalized_types,
               include_answers = with_answers\<rparr>)"

text \<open>
  Steps 3 to 8 of \<open>generate_questions_from_pdf\<close>, from \<open>cleaned_text\<close> on: the
  availability check, the extraction of the text of the PDF and \<open>clean_text\<close> come
  before and either raise or produce \<open>cleaned_text\<close>. The result is \<open>None\<close> when
  the chunking does not return. An error of the retrieval is caught by the outer
  \<open>except Exception\<close> and becomes status 500.
\<close>

definition generate_questions_from_pdf ::
  "'f floats \<Rightarrow> 'f world \<Rightarrow> string \<Rightarrow> int \<Rightarrow> string \<Rightarrow> bool \<Rightarrow>
   ((http_exception + response) \<times> generation \<times> 'f world) option" where
  "generate_questions_from_pdf fl w cleaned_text num_questions question_types with_answers =
     (case chunk_text cleaned_text 1500 150 of
        None \<Rightarrow> None
      | Some chunks \<Rightarrow>
          let requested_types = map (\<lambda>qtype. py_lower (py_strip qtype))
                                    (split_comma [] question_types);
              normalized_types = normalize_types [] requested_types;
              g0 = \<lparr>all_questions = [], previous_questions = {}, connection_errors = [],
                    remaining = remaining_init num_questions normalized_types\<rparr>
          in if normalized_types = [] then Some (Inl (HTTPException 400), g0, w)
             else
               let per_type = questions_per_type num_questions normalized_types;
                   query = ''Generate questions about the main topics and key concepts''
               in case retrieve_relevant_chunks fl w chunks query (min 3 (int (length chunks))) of
                    (Inl e, w') \<Rightarrow> Some (Inl (HTTPException 500), g0, w')
                  | (Inr relevant, w') \<Rightarrow>
                      let relevant_chunks =
                            (if relevant = [] then
                               (if length chunks \<ge> 3 then py_prefix chunks 3 else chunks)
                             else relevant);
                          context_text = py_join [newline, newline] relevant_chunks
                      in case generate_per_type w' context_text with_answers per_type g0
                                normalized_types of
                           (g, w'') \<Rightarrow>
                             Some (format_results g normalized_types with_answers, g, w''))"


section \<open>Example runs\<close>

text \<open>
  A process whose first embedding request is answered with status 500 and whose later
  ones would succeed; a process whose breaker has tripped; and a process in which the
  embedding backend and the first generation request refuse the connection, while the
  second generation request is answered with five statements.
\<close>

definition failing_once :: "'f world" where
  "failing_once =
     \<lparr>embeddings_api_failed = False, embeddings_posts = [],
      embeddings_backend = (\<lambda>n. if n = 0 then Status 500 FieldAbsent
                                 else Status 200 (Field [PyInt 1, PyInt 2])),
      generate_posts = [], generate_backend = (\<lambda>n. Hangs)\<rparr>"

definition tripped :: "'f world" where
  "tripped =
     \<lparr>embeddings_api_failed = True, embeddings_posts = [],
      embeddings_backend = (\<lambda>n. Status 200 (Field [PyInt 1, PyInt 2])),
      generate_posts = [], generate_backend = (\<lambda>n. Hangs)\<rparr>"

definition five_statements :: string where
  "five_statements =
     ''Here are five:\<newline>Q: s1\<newline>Q: s2\<newline>Q: s3\<newline>Q: s4\<newline>Q: s5''"

definition refusing_then_five :: "'f world" where
  "refusing_then_five =
     \<lparr>embeddings_api_failed = False, embeddings_posts = [],
      embeddings_backend = (\<lambda>n. Raises (ConnectError ''refused'')),
      generate_posts = [],
      generate_backend = (\<lambda>n. if n = 0 then Raises (ConnectError ''refused'')
                               else Status 200 (Field five_statements))\<rparr>"

text \<open>
  A segment of a response with the options A, B and C on their lines and no line for
  option D, and a process whose generation backend answers every request with two
  statements.
\<close>

definition segment_with_aside :: string where
  "segment_with_aside = ''Which method (standard) is used?\<newline>A) x\<newline>B) y\<newline>C) z''"

definition two_statements :: "'f world" where
  "two_statements =
     \<lparr>embeddings_api_failed = False, embeddings_posts = [],
      embeddings_backend = (\<lambda>n. Hangs),
      generate_posts = [],
      generate_backend = (\<lambda>n. Status 200 (Field ''Q: a\<newline>Q: b''))\<rparr>"



section \<open>Quota planning: results\<close>

lemma quota_walk_at_least:
  "1 \<le> per_type \<Longrightarrow> q \<in> set (quota_walk per_type r ts) \<Longrightarrow> 1 \<le> q"
  by (induction ts arbitrary: r) (auto simp: questions_to_generate_def split: if_splits)

lemma plan_at_least_one: "q \<in> set (plan num_questions ts) \<Longrightarrow> 1 \<le> q"
  unfolding plan_def by (rule quota_walk_at_least[of "questions_per_type num_questions ts"])
    (simp_all add: questions_per_type_def)

lemma length_quota_walk: "length (quota_walk per_type r ts) = length ts"
  by (induction ts arbitrary: r) (auto simp: questions_to_generate_def)

text \<open>
  C9. With ten questions over the three types the base is 3 and the remainder 1, the
  quotas are 4, 3, 3 in the order of the types, and they add up to 10.
\<close>

theorem plan_ten_over_three:
  "questions_per_type 10 [''mcq'', ''truefalse'', ''shortanswer''] = 3 \<and>
   remaining_init 10 [''mcq'', ''truefalse'', ''shortanswer''] = 1 \<and>
   plan 10 [''mcq'', ''truefalse'', ''shortanswer''] = [4, 3, 3] \<and>
   sum_list (plan 10 [''mcq'', ''truefalse'', ''shortanswer'']) = 10"
  by (simp add: plan_def questions_per_type_def remaining_init_def questions_to_generate_def)

text \<open>
  C1, as stated, fails: with two questions over the three types the quotas are not
  1, 1, 1 and their sum is not 3.
\<close>

theorem plan_two_over_three_counterexample:
  "\<not> (plan 2 [''mcq'', ''truefalse'', ''shortanswer''] = [1, 1, 1] \<and>
      sum_list (plan 2 [''mcq'', ''truefalse'', ''shortanswer'']) = 3)"
  by (simp add: plan_def questions_per_type_def remaining_init_def questions_to_generate_def)

text \<open>
  C1, amended. With two questions over the three types the base is \<open>max(1, 2 // 3) = 1\<close>
  and the remainder \<open>2 % 3 = 2\<close> still goes to the first two types: the quotas are
  2, 2, 1, every type gets at least one question, and the sum is 5.
\<close>

theorem plan_two_over_three:
  "questions_per_type 2 [''mcq'', ''truefalse'', ''shortanswer''] = 1 \<and>
   remaining_init 2 [''mcq'', ''truefalse'', ''shortanswer''] = 2 \<and>
   plan 2 [''mcq'', ''truefalse'', ''shortanswer''] = [2, 2, 1] \<and>
   sum_list (plan 2 [''mcq'', ''truefalse'', ''shortanswer'']) = 5"
  by (simp add: plan_def questions_per_type_def remaining_init_def questions_to_generate_def)

section \<open>Chunking: results\<close>

lemma num_chunks_bounds:
  assumes "0 \<le> ov" "ov < cs" "cs < int L"
  defines "n \<equiv> num_chunks L cs ov"
  shows "1 \<le> n" "(int n - 1) * (cs - ov) + ov < int L" "int L \<le> int n * (cs - ov) + ov"
proof -
  define d where "d = cs - ov"
  define m where "m = int L - ov + d - 1"
  have d: "0 < d" using assms by (simp add: d_def)
  have m: "d \<le> m" using assms by (simp add: m_def d_def)
  have q: "0 \<le> m div d" using d m by (simp add: pos_imp_zdiv_nonneg_iff)
  have n: "int n = m div d" using assms q by (simp add: n_def num_chunks_def m_def d_def)
  have lo: "(m div d) * d \<le> m" using d div_mult_mod_eq[of m d] pos_mod_sign[of d m] by linarith
  have hi: "m < (m div d) * d + d" using d div_mult_mod_eq[of m d] pos_mod_bound[of d m] by linarith
  have "m div d \<noteq> 0" using hi m by auto
  then have "1 \<le> m div d" using q by linarith
  then show "1 \<le> n" using n by linarith
  show "(int n - 1) * (cs - ov) + ov < int L" using lo n by (simp add: m_def d_def algebra_simps)
  show "int L \<le> int n * (cs - ov) + ov" using hi n by (simp add: m_def d_def algebra_simps)
qed

lemma chunk_loop_closed:
  assumes "0 \<le> ov" "ov < cs"
    and "(int n - 1) * (cs - ov) + ov < int (length text)"
    and "int (length text) \<le> int n * (cs - ov) + ov"
    and "k < n"
  shows "chunk_loop text cs ov (window_start cs ov k) acc =
         Some (acc @ map (window text cs ov) [k..<n])"
  using assms(5)
proof (induction "n - k" arbitrary: k acc)
  case 0
  then show ?case by simp
next
  case (Suc m)
  define d where "d = cs - ov"
  have d: "0 < d" using assms by (simp add: d_def)
  have kn: "int k \<le> int n - 1" using Suc.prems by simp
  have "int k * d \<le> (int n - 1) * d" using kn d by (simp add: mult_right_mono)
  then have st: "window_start cs ov k < int (length text)"
    using assms(1,3) by (simp add: window_start_def d_def)
  show ?case
  proof (cases "Suc k = n")
    case True
    then have "int n = int k + 1" by simp
    then have "int (length text) \<le> window_start cs ov k + cs"
      using assms(4) by (simp add: window_start_def algebra_simps)
    then have e: "min (window_start cs ov k + cs) (int (length text)) = int (length text)" by simp
    have up: "[k..<n] = [k]" using True by auto
    show ?thesis
      by (subst chunk_loop.simps) (simp add: st e up window_def window_end_def Let_def)
  next
    case False
    then have k1: "Suc k < n" using Suc.prems by simp
    then have "int (Suc k) \<le> int n - 1" by simp
    then have "int (Suc k) * d \<le> (int n - 1) * d" using d by (simp only: mult_right_mono less_imp_le)
    then have lt: "window_start cs ov k + cs < int (length text)"
      using assms(3) by (simp add: window_start_def d_def algebra_simps)
    then have e: "min (window_start cs ov k + cs) (int (length text)) = window_start cs ov k + cs" by simp
    have nx: "window_start cs ov k + cs - ov = window_start cs ov (Suc k)"
      by (simp add: window_start_def algebra_simps)
    have up: "[k..<n] = k # [Suc k..<n]" using Suc.prems by (simp add: upt_conv_Cons)
    have m: "m = n - Suc k" using Suc.hyps(2) by simp
    show ?thesis
      apply (subst chunk_loop.simps)
      using lt apply (simp add: st e Let_def nx Suc.hyps(1)[OF m k1] up window_def window_end_def)
      done
  qed
qed

lemma chunk_text_closed:
  assumes "0 \<le> ov" "ov < cs"
  shows "chunk_text text cs ov = Some (map (window text cs ov) [0..<num_chunks (length text) cs ov])"
proof (cases "int (length text) \<le> cs")
  case True
  then have "window text cs ov 0 = text"
    by (simp add: window_def window_start_def window_end_def py_slice_def py_bound_def)
  then show ?thesis using True by (simp add: chunk_text_def num_chunks_def)
next
  case False
  then have L: "cs < int (length text)" by simp
  note b = num_chunks_bounds[OF assms L]
  have "chunk_loop text cs ov (window_start cs ov 0) [] =
         Some ([] @ map (window text cs ov) [0..<num_chunks (length text) cs ov])"
    by (rule chunk_loop_closed[OF assms b(2) b(3)]) (use b(1) in simp)
  then show ?thesis using False by (simp add: chunk_text_def window_start_def)
qed


lemma window_arith:
  assumes "0 \<le> ov" "ov < cs"
    and "(int n - 1) * (cs - ov) + ov < int L"
    and "int L \<le> int n * (cs - ov) + ov"
    and "k < n"
  shows "0 \<le> window_start cs ov k"
    and "window_start cs ov k + ov < int L"
    and "Suc k < n \<Longrightarrow> window_start cs ov k + cs < int L"
    and "Suc k = n \<Longrightarrow> int L \<le> window_start cs ov k + cs"
proof -
  define d where "d = cs - ov"
  have d: "0 < d" using assms by (simp add: d_def)
  show "0 \<le> window_start cs ov k" using d by (simp add: window_start_def d_def)
  have "int k \<le> int n - 1" using assms(5) by simp
  then have "int k * d \<le> (int n - 1) * d" using d by (simp only: mult_right_mono less_imp_le)
  then show "window_start cs ov k + ov < int L"
    using assms(3) by (simp add: window_start_def d_def)
  show "window_start cs ov k + cs < int L" if "Suc k < n"
  proof -
    have "int (Suc k) \<le> int n - 1" using that by simp
    then have "int (Suc k) * d \<le> (int n - 1) * d" using d by (simp only: mult_right_mono less_imp_le)
    then show ?thesis using assms(3) by (simp add: window_start_def d_def algebra_simps)
  qed
  show "int L \<le> window_start cs ov k + cs" if "Suc k = n"
  proof -
    have "int n = int k + 1" using that by simp
    then show ?thesis using assms(4) by (simp add: window_start_def algebra_simps)
  qed
qed

lemma py_slice_take_drop:
  assumes "0 \<le> a" "a \<le> b" "b \<le> int (length xs)"
  shows "py_slice xs a b = take (nat b - nat a) (drop (nat a) xs)"
proof -
  have "nat a \<le> length xs" "nat b \<le> length xs" using assms by linarith+
  then show ?thesis using assms by (simp add: py_slice_def py_bound_def Let_def min_absorb1)
qed

lemma window_end_last_iff:
  assumes "0 \<le> ov" "ov < cs"
    and "(int n - 1) * (cs - ov) + ov < int L"
    and "int L \<le> int n * (cs - ov) + ov"
    and "k < n"
  shows "(window_end L cs ov k = int L) = (Suc k = n)"
proof (cases "Suc k = n")
  case True
  then show ?thesis using window_arith(4)[OF assms True] by (simp add: window_end_def)
next
  case False
  then have "Suc k < n" using assms(5) by simp
  then show ?thesis using window_arith(3)[OF assms] False by (simp add: window_end_def)
qed

lemma window_inner:
  assumes "0 \<le> ov" "ov < cs"
    and "(int n - 1) * (cs - ov) + ov < int (length text)"
    and "int (length text) \<le> int n * (cs - ov) + ov"
    and "Suc k < n"
  shows "window text cs ov k = take (nat cs) (drop (nat (window_start cs ov k)) text)"
    and "length (window text cs ov k) = nat cs"
proof -
  have k: "k < n" using assms(5) by simp
  note a = window_arith[OF assms(1-4) k]
  have e: "window_end (length text) cs ov k = window_start cs ov k + cs"
    using a(3)[OF assms(5)] by (simp add: window_end_def)
  show w: "window text cs ov k = take (nat cs) (drop (nat (window_start cs ov k)) text)"
    unfolding window_def e
    using a(1) a(3)[OF assms(5)] assms(1,2)
    by (subst py_slice_take_drop) (simp_all add: nat_add_distrib)
  show "length (window text cs ov k) = nat cs"
    unfolding w using a(1) a(3)[OF assms(5)] assms(1,2) by simp
qed

lemma window_any:
  assumes "0 \<le> ov" "ov < cs"
    and "(int n - 1) * (cs - ov) + ov < int (length text)"
    and "int (length text) \<le> int n * (cs - ov) + ov"
    and "k < n"
  shows "window text cs ov k =
         take (nat (window_end (length text) cs ov k) - nat (window_start cs ov k))
              (drop (nat (window_start cs ov k)) text)"
    and "window_start cs ov k + ov < window_end (length text) cs ov k"
proof -
  note a = window_arith[OF assms]
  show "window_start cs ov k + ov < window_end (length text) cs ov k"
    using a(2) assms(1,2) by (simp add: window_end_def)
  then show "window text cs ov k =
         take (nat (window_end (length text) cs ov k) - nat (window_start cs ov k))
              (drop (nat (window_start cs ov k)) text)"
    unfolding window_def using a(1) assms(1)
    by (subst py_slice_take_drop) (simp_all add: window_end_def)
qed

lemma window_overlap:
  assumes "0 \<le> ov" "ov < cs"
    and "(int n - 1) * (cs - ov) + ov < int (length text)"
    and "int (length text) \<le> int n * (cs - ov) + ov"
    and "Suc k < n"
  shows "drop (nat (cs - ov)) (window text cs ov k) = take (nat ov) (window text cs ov (Suc k))"
    and "length (take (nat ov) (window text cs ov (Suc k))) = nat ov"
proof -
  have k: "k < n" using assms(5) by simp
  note a = window_arith[OF assms(1-4) k]
  note b = window_any[OF assms(1-4) assms(5)]
  note c = window_arith[OF assms(1-4) assms(5)]
  have s: "nat (window_start cs ov (Suc k)) = nat (window_start cs ov k) + nat (cs - ov)"
    using a(1) assms(1,2) by (simp add: window_start_def nat_add_distrib algebra_simps nat_mult_distrib)
  have len: "nat ov \<le> nat (window_end (length text) cs ov (Suc k)) - nat (window_start cs ov (Suc k))"
    using b(2) c(1) assms(1) by linarith
  have "drop (nat (cs - ov)) (window text cs ov k) =
        take (nat cs - nat (cs - ov)) (drop (nat (window_start cs ov k) + nat (cs - ov)) text)"
    unfolding window_inner(1)[OF assms] by (simp add: drop_take add.commute)
  also have "nat cs - nat (cs - ov) = nat ov" using assms(1,2) by linarith
  also have "take (nat ov) (drop (nat (window_start cs ov k) + nat (cs - ov)) text) =
             take (nat ov) (window text cs ov (Suc k))"
    unfolding b(1) s using len by (simp add: min_absorb2 s)
  finally show "drop (nat (cs - ov)) (window text cs ov k) = take (nat ov) (window text cs ov (Suc k))" .
  have "nat ov \<le> length (window text cs ov (Suc k))"
    unfolding b(1) using len c(2) c(1) b(2) assms(1) by (simp add: window_end_def)
  then show "length (take (nat ov) (window text cs ov (Suc k))) = nat ov" by simp
qed

lemma window_rebuild:
  assumes "0 \<le> ov" "ov < cs"
    and "(int n - 1) * (cs - ov) + ov < int (length text)"
    and "int (length text) \<le> int n * (cs - ov) + ov"
    and "m < n"
  shows "window text cs ov 0 @ concat (map (\<lambda>k. drop (nat ov) (window text cs ov k)) [1..<Suc m]) =
         take (nat (window_end (length text) cs ov m)) text"
  using assms(5)
proof (induction m)
  case 0
  have "0 < n" using 0 by simp
  from window_any(1)[OF assms(1-4) this] show ?case by (simp add: window_start_def)
next
  case (Suc m)
  have m: "m < n" and sm: "Suc m < n" using Suc.prems by simp_all
  note a = window_arith[OF assms(1-4) m]
  note b = window_any[OF assms(1-4) sm]
  note c = window_arith[OF assms(1-4) sm]
  have e: "window_end (length text) cs ov m = window_start cs ov m + cs"
    using a(3)[OF sm] by (simp add: window_end_def)
  have s: "window_start cs ov (Suc m) + ov = window_end (length text) cs ov m"
    unfolding e by (simp add: window_start_def algebra_simps)
  have s': "nat (window_start cs ov (Suc m)) + nat ov = nat (window_end (length text) cs ov m)"
    using s c(1) assms(1) by linarith
  have le: "nat (window_end (length text) cs ov m) \<le> nat (window_end (length text) cs ov (Suc m))"
    using b(2) s by linarith
  have "drop (nat ov) (window text cs ov (Suc m)) =
        take (nat (window_end (length text) cs ov (Suc m)) - nat (window_end (length text) cs ov m))
             (drop (nat (window_end (length text) cs ov m)) text)"
    unfolding b(1) using s' by (simp add: drop_take add.commute) 
  moreover have "[1..<Suc (Suc m)] = [1..<Suc m] @ [Suc m]" by simp
  ultimately show ?case
    using Suc.IH[OF m] le
    by (simp only: map_append concat_append list.map concat.simps append_Nil2 append_assoc[symmetric])
       (metis take_add le_add_diff_inverse)
qed

lemma chunk_loop_diverges_aux:
  assumes "chunk_loop text cs ov start acc = Some r"
  shows "\<not> (cs \<le> ov \<and> start < int (length text) \<and> start + cs < int (length text))"
proof (rule chunk_loop.raw_induct[where P = "\<lambda>text cs ov start acc r.
          \<not> (cs \<le> ov \<and> start < int (length text) \<and> start + cs < int (length text))", OF _ assms])
  fix f :: "'a list \<Rightarrow> int \<Rightarrow> int \<Rightarrow> int \<Rightarrow> 'a list list \<Rightarrow> 'a list list option"
  fix t cs ov start acc r
  assume IH: "\<And>t cs ov start acc r. f t cs ov start acc = Some r \<Longrightarrow>
          \<not> (cs \<le> ov \<and> start < int (length t) \<and> start + cs < int (length t))"
  assume body: "(if start < int (length t) then
        (let end' = min (start + cs) (int (length t));
             chunks' = acc @ [py_slice t start end']
         in if end' \<ge> int (length t) then Some chunks'
            else f t cs ov (end' - ov) chunks')
      else Some acc) = Some r"
  show "\<not> (cs \<le> ov \<and> start < int (length t) \<and> start + cs < int (length t))"
  proof
    assume h: "cs \<le> ov \<and> start < int (length t) \<and> start + cs < int (length t)"
    then have e: "min (start + cs) (int (length t)) = start + cs" by simp
    from body h have "f t cs ov (start + cs - ov) (acc @ [py_slice t start (start + cs)]) = Some r"
      by (simp add: e Let_def)
    from IH[OF this] h show False by simp
  qed
qed

lemma chunk_loop_diverges:
  assumes "cs \<le> ov" "start < int (length text)" "start + cs < int (length text)"
  shows "chunk_loop text cs ov start acc = None"
proof (cases "chunk_loop text cs ov start acc")
  case None
  then show ?thesis .
next
  case (Some r)
  from chunk_loop_diverges_aux[OF this] assms show ?thesis by simp
qed

lemma chunk_text_no_return:
  assumes "cs \<le> ov" "cs < int (length t)" "t \<noteq> []"
  shows "chunk_text t cs ov = None"
  using assms by (simp add: chunk_text_def chunk_loop_diverges)

lemma chunk_loop_empty: "chunk_loop [] cs ov 0 [] = Some []"
  by (subst chunk_loop.simps) simp


text \<open>
  C5, as stated, fails: no guard rejects \<open>overlap \<ge> chunk_size\<close>. With a text of
  three characters, \<open>chunk_size = 2\<close> and \<open>overlap = 2\<close> the call never returns, and
  with a text that fits in one chunk and \<open>overlap = 5\<close> it returns the text as one
  chunk.
\<close>

theorem chunk_text_guard_counterexample:
  "chunk_text ''abc'' 2 2 = None \<and> chunk_text ''ab'' 2 5 = Some [''ab'']"
  by (simp add: chunk_text_no_return) (simp add: chunk_text_def)

text \<open>
  C5, amended. For every text, every \<open>chunk_size \<ge> 1\<close> and every overlap with
  \<open>0 \<le> overlap < chunk_size\<close>, \<open>chunk_text\<close> returns: its chunks are the windows
  \<open>0, \<dots>, n - 1\<close> for some \<open>n \<ge> 1\<close>, and the window whose end is the length of the
  text is the last one and no other, so it is emitted exactly once. A call with
  \<open>overlap \<ge> chunk_size\<close> is not rejected: it returns the text as one chunk when
  the text is no longer than \<open>chunk_size\<close>, returns no chunk for an empty text, and
  otherwise never returns.
\<close>

theorem chunk_text_terminates:
  "(1 \<le> chunk_size \<and> 0 \<le> overlap \<and> overlap < chunk_size \<longrightarrow>
      (\<exists>n\<ge>1. chunk_text text chunk_size overlap =
                 Some (map (window text chunk_size overlap) [0..<n]) \<and>
             (\<forall>k<n. (window_end (length text) chunk_size overlap k = int (length text))
                      = (Suc k = n)))) \<and>
   (chunk_size \<le> overlap \<longrightarrow>
      chunk_text text chunk_size overlap =
        (if int (length text) \<le> chunk_size then Some [text]
         else if text = [] then Some [] else None))"
proof (intro conjI impI)
  assume h: "1 \<le> chunk_size \<and> 0 \<le> overlap \<and> overlap < chunk_size"
  then have ov: "0 \<le> overlap" "overlap < chunk_size" by simp_all
  let ?n = "num_chunks (length text) chunk_size overlap"
  show "\<exists>n\<ge>1. chunk_text text chunk_size overlap =
                 Some (map (window text chunk_size overlap) [0..<n]) \<and>
             (\<forall>k<n. (window_end (length text) chunk_size overlap k = int (length text))
                      = (Suc k = n))"
  proof (cases "int (length text) \<le> chunk_size")
    case True
    then have n: "?n = 1" by (simp add: num_chunks_def)
    have "window_end (length text) chunk_size overlap 0 = int (length text)"
      using True by (simp add: window_end_def window_start_def)
    then show ?thesis
      using chunk_text_closed[OF ov, of "text"] n by (intro exI[of _ 1]) simp
  next
    case False
    then have L: "chunk_size < int (length text)" by simp
    note b = num_chunks_bounds[OF ov L]
    have "\<forall>k<?n. (window_end (length text) chunk_size overlap k = int (length text)) = (Suc k = ?n)"
      using window_end_last_iff[OF ov b(2) b(3)] by blast
    then show ?thesis
      using chunk_text_closed[OF ov, of "text"] b(1) by (intro exI[of _ ?n]) simp
  qed
next
  assume h: "chunk_size \<le> overlap"
  show "chunk_text text chunk_size overlap =
        (if int (length text) \<le> chunk_size then Some [text]
         else if text = [] then Some [] else None)"
  proof (cases "int (length text) \<le> chunk_size")
    case True
    then show ?thesis by (simp add: chunk_text_def)
  next
    case False
    show ?thesis
    proof (cases "text = []")
      case True
      then show ?thesis using False by (simp add: chunk_text_def chunk_loop_empty)
    next
      case nonempty: False
      then show ?thesis using False h by (simp add: chunk_text_no_return)
    qed
  qed
qed

theorem chunk_text_terminates_witness:
  "(1::int) \<le> 3 \<and> (0::int) \<le> 1 \<and> (1::int) < 3 \<and>
   (\<exists>n\<ge>1. chunk_text ''abcde'' 3 1 = Some (map (window ''abcde'' 3 1) [0..<n]) \<and>
       (\<forall>k<n. (window_end (length ''abcde'') 3 1 k = int (length ''abcde'')) = (Suc k = n))) \<and>
   (2::int) \<le> 2 \<and> chunk_text ''abc'' 2 2 = None"
  using chunk_text_terminates[of 3 1 "''abcde''"] chunk_text_terminates[of 2 2 "''abc''"]
  by simp

text \<open>
  C3, as stated, fails. With the text \<open>abcde\<close>, \<open>chunk_size = 3\<close> and \<open>overlap = 1\<close>
  the chunks are \<open>abc\<close> and \<open>cde\<close>, and their suffixes of length
  \<open>chunk_size - overlap = 2\<close> concatenate to \<open>bcde\<close>: the first \<open>overlap\<close> characters
  of the text are lost. With the negative overlap \<open>-1\<close>, which is below
  \<open>chunk_size\<close> too, the chunks of \<open>abcdef\<close> are \<open>ab\<close> and \<open>de\<close>, which share nothing
  and skip two characters of the text.
\<close>

theorem chunk_text_roundtrip_counterexample:
  "chunk_text ''abcde'' 3 1 = Some [''abc'', ''cde''] \<and>
   suffixes_joined [''abc'', ''cde''] (nat (3 - 1)) = ''bcde'' \<and>
   suffixes_joined [''abc'', ''cde''] (nat (3 - 1)) \<noteq> ''abcde'' \<and>
   chunk_text ''abcdef'' 2 (- 1) = Some [''ab'', ''de'']"
  by code_simp

text \<open>
  C3, amended. For every text longer than \<open>chunk_size\<close> and every overlap with
  \<open>0 \<le> overlap < chunk_size\<close>: every chunk but the last has length exactly
  \<open>chunk_size\<close>; the last \<open>overlap\<close> characters of each chunk are the first \<open>overlap\<close>
  characters of the next one; and the first chunk followed by every later chunk
  without its first \<open>overlap\<close> characters is the text.
\<close>

theorem chunk_text_overlap_roundtrip:
  assumes "chunk_size < int (length text)" "0 \<le> overlap" "overlap < chunk_size"
  shows "\<exists>chunks. chunk_text text chunk_size overlap = Some chunks \<and>
           (\<forall>i. Suc i < length chunks \<longrightarrow>
                  length (chunks ! i) = nat chunk_size \<and>
                  drop (nat (chunk_size - overlap)) (chunks ! i) = take (nat overlap) (chunks ! Suc i) \<and>
                  length (take (nat overlap) (chunks ! Suc i)) = nat overlap) \<and>
           hd chunks @ concat (map (drop (nat overlap)) (tl chunks)) = text"
proof -
  let ?n = "num_chunks (length text) chunk_size overlap"
  let ?chunks = "map (window text chunk_size overlap) [0..<?n]"
  note ov = assms(2,3)
  note b = num_chunks_bounds[OF ov assms(1)]
  have c: "chunk_text text chunk_size overlap = Some ?chunks" by (rule chunk_text_closed[OF ov])
  have inner: "length (?chunks ! i) = nat chunk_size \<and>
               drop (nat (chunk_size - overlap)) (?chunks ! i) = take (nat overlap) (?chunks ! Suc i) \<and>
               length (take (nat overlap) (?chunks ! Suc i)) = nat overlap"
    if "Suc i < length ?chunks" for i
  proof -
    have i: "Suc i < ?n" using that by simp
    then have i': "i < ?n" by simp
    show ?thesis
      using window_inner(2)[OF ov b(2) b(3) i] window_overlap[OF ov b(2) b(3) i] i i'
      by (simp del: upt_Suc)
  qed
  have pos: "0 < ?n" using b(1) by simp
  then have m: "?n - 1 < ?n" by simp
  have up: "[0..<?n] = 0 # [1..<?n]" using pos by (simp add: upt_conv_Cons)
  have hd: "hd ?chunks = window text chunk_size overlap 0" by (subst up) simp
  have tl: "tl ?chunks = map (window text chunk_size overlap) [1..<?n]" by (subst up) simp
  have S: "Suc (?n - 1) = ?n" using pos by simp
  have "window_end (length text) chunk_size overlap (?n - 1) = int (length text)"
    using window_end_last_iff[OF ov b(2) b(3) m] S by simp
  then have "hd ?chunks @ concat (map (drop (nat overlap)) (tl ?chunks)) = text"
    using window_rebuild[OF ov b(2) b(3) m] unfolding hd tl S by (simp add: comp_def)
  with c inner show ?thesis by blast
qed

theorem chunk_text_overlap_roundtrip_witness:
  "(3::int) < int (length ''abcde'') \<and> (0::int) \<le> 1 \<and> (1::int) < 3 \<and>
   (\<exists>chunks. chunk_text ''abcde'' 3 1 = Some chunks \<and>
           (\<forall>i. Suc i < length chunks \<longrightarrow>
                  length (chunks ! i) = nat 3 \<and>
                  drop (nat (3 - 1)) (chunks ! i) = take (nat 1) (chunks ! Suc i) \<and>
                  length (take (nat 1) (chunks ! Suc i)) = nat 1) \<and>
           hd chunks @ concat (map (drop (nat 1)) (tl chunks)) = ''abcde'')"
proof -
  have h: "(3::int) < int (length ''abcde'')" "(0::int) \<le> 1" "(1::int) < 3" by simp_all
  from chunk_text_overlap_roundtrip[OF h] h show ?thesis by blast
qed


section \<open>The circuit breaker, batch generation and the process state: results\<close>

lemma get_embedding_tripped: "embeddings_api_failed w \<Longrightarrow> get_embedding w t = ([], w)"
  by (simp add: get_embedding_def)

lemma get_embeddings_tripped:
  "embeddings_api_failed w \<Longrightarrow> get_embeddings w ts = (map (\<lambda>_. []) ts, w)"
  by (induction ts) (simp_all add: get_embedding_tripped)

lemma get_embedding_failure:
  assumes "\<not> embeddings_api_failed w"
    and "embedding_fails (embeddings_backend w (length (embeddings_posts w)))"
  shows "fst (get_embedding w t) = []"
    and "embeddings_api_failed (snd (get_embedding w t))"
    and "embeddings_posts (snd (get_embedding w t)) = embeddings_posts w @ [py_prefix t 2000]"
  using assms
  by (auto simp: get_embedding_def embedding_fails_def Let_def split: reply.splits body.splits)

lemma length_py_prefix: "0 \<le> n \<Longrightarrow> int (length (py_prefix xs n)) \<le> n"
  by (simp add: py_prefix_def py_bound_def)

lemma generate_inner_cases:
  "generate_inner answer q_type n inc = None \<or>
   (\<exists>questions. generate_inner answer q_type n inc = Some (Inr questions) \<and>
                 (0 \<le> n \<longrightarrow> int (length questions) \<le> n))"
  by (auto simp: generate_inner_def generate_try_def length_py_prefix
           split: reply.splits body.splits exc.splits)

lemma generate_inner_empty:
  assumes "\<not> (\<exists>payload. answer = Status 200 payload \<and> payload \<noteq> Undecodable)"
  shows "generate_inner answer q_type n inc = None \<or>
         generate_inner answer q_type n inc = Some (Inr [])"
  using assms
  by (auto simp: generate_inner_def generate_try_def split: reply.splits body.splits exc.splits)

lemma generate_question_batch_total:
  "\<exists>questions. fst (generate_question_batch w chunk q_type n prev inc timeout) = Inr questions \<and>
                (0 \<le> n \<longrightarrow> int (length questions) \<le> n)"
  using generate_inner_cases[of "generate_backend w (length (generate_posts w))" q_type n inc]
  by (auto simp: generate_question_batch_def Let_def)

lemma generate_question_batch_empty:
  assumes "\<not> (\<exists>payload. generate_backend w (length (generate_posts w)) = Status 200 payload \<and>
                         payload \<noteq> Undecodable)"
  shows "fst (generate_question_batch w chunk q_type n prev inc timeout) = Inr []"
  using generate_inner_empty[OF assms, of q_type n inc]
  by (auto simp: generate_question_batch_def Let_def)

lemma generate_question_batch_world:
  "snd (generate_question_batch w chunk q_type n prev inc timeout) =
     w\<lparr>generate_posts := generate_posts w @ [(q_type, n, inc, py_prefix chunk 1500)]\<rparr>"
  using generate_inner_cases[of "generate_backend w (length (generate_posts w))" q_type n inc]
  by (auto simp: generate_question_batch_def Let_def)

lemma generate_per_type_connection_errors:
  "connection_errors (fst (generate_per_type w ctx inc per g ts)) = connection_errors g"
proof (induction ts arbitrary: w g)
  case Nil
  then show ?case by simp
next
  case (Cons q_type ts)
  obtain n r where q: "questions_to_generate per (remaining g) = (n, r)"
    by (cases "questions_to_generate per (remaining g)")
  obtain res w' where b: "generate_question_batch w ctx q_type n (previous_questions g) inc 120 = (res, w')"
    by (cases "generate_question_batch w ctx q_type n (previous_questions g) inc 120")
  from generate_question_batch_total[of w ctx q_type n "previous_questions g" inc 120] b
  obtain qs where "res = Inr qs" by auto
  with q b show ?case by (simp add: Cons.IH)
qed

lemma generate_per_type_embedding_state:
  "embeddings_api_failed (snd (generate_per_type w ctx inc per g ts)) = embeddings_api_failed w \<and>
   embeddings_posts (snd (generate_per_type w ctx inc per g ts)) = embeddings_posts w"
proof (induction ts arbitrary: w g)
  case Nil
  then show ?case by simp
next
  case (Cons q_type ts)
  obtain n r where q: "questions_to_generate per (remaining g) = (n, r)"
    by (cases "questions_to_generate per (remaining g)")
  obtain res w' where b: "generate_question_batch w ctx q_type n (previous_questions g) inc 120 = (res, w')"
    by (cases "generate_question_batch w ctx q_type n (previous_questions g) inc 120")
  from generate_question_batch_world[of w ctx q_type n "previous_questions g" inc 120] b
  have w': "embeddings_api_failed w' = embeddings_api_failed w" "embeddings_posts w' = embeddings_posts w"
    by simp_all
  from generate_question_batch_total[of w ctx q_type n "previous_questions g" inc 120] b
  obtain qs where "res = Inr qs" by auto
  with q b w' show ?case by (simp add: Cons.IH)
qed

lemma generate_per_type_embedding_state_result:
  assumes "generate_per_type w ctx inc per g0 ts = (g, w')"
  shows "embeddings_api_failed w' = embeddings_api_failed w \<and>
         embeddings_posts w' = embeddings_posts w"
  using generate_per_type_embedding_state[of w ctx inc per g0 ts] assms by simp

lemma retrieve_tripped:
  "embeddings_api_failed w \<Longrightarrow> snd (retrieve_relevant_chunks fl w chunks query top_k) = w"
  by (simp add: retrieve_relevant_chunks_def get_embedding_def)

lemma pipeline_tripped:
  assumes "embeddings_api_failed w"
    and "generate_questions_from_pdf fl w cleaned n qtypes inc = Some (r, g, w')"
  shows "embeddings_api_failed w' \<and> embeddings_posts w' = embeddings_posts w"
proof -
  obtain chunks where c: "chunk_text cleaned 1500 150 = Some chunks"
    using assms(2) by (auto simp: generate_questions_from_pdf_def split: option.splits)
  let ?q = "''Generate questions about the main topics and key concepts''"
  let ?k = "min 3 (int (length chunks))"
  obtain rel w1 where rr: "retrieve_relevant_chunks fl w chunks ?q ?k = (rel, w1)"
    by (cases "retrieve_relevant_chunks fl w chunks ?q ?k")
  with retrieve_tripped[OF assms(1), of fl chunks ?q ?k] have w1: "w1 = w" by simp
  show ?thesis
    using assms c rr w1
    by (auto simp: generate_questions_from_pdf_def Let_def
             dest!: generate_per_type_embedding_state_result
             split: if_splits sum.splits prod.splits)
qed

lemma pipeline_returns: "\<exists>r g w'. generate_questions_from_pdf fl w cleaned n qtypes inc = Some (r, g, w')"
proof -
  have "chunk_text cleaned 1500 150 \<noteq> None"
    using chunk_text_closed[of 150 1500 cleaned] by simp
  then show ?thesis
    by (auto simp: generate_questions_from_pdf_def Let_def split: option.splits sum.splits prod.splits)
qed

lemma generate_per_type_connection_errors_result:
  assumes "generate_per_type w ctx inc per g0 ts = (g, w')"
  shows "connection_errors g = connection_errors g0"
  using generate_per_type_connection_errors[of w ctx inc per g0 ts] assms by simp

lemma pipeline_connection_errors:
  assumes "generate_questions_from_pdf fl w cleaned n qtypes inc = Some (r, g, w')"
  shows "connection_errors g = []" "r \<noteq> Inl (HTTPException 503)"
proof -
  show g: "connection_errors g = []"
    using assms
    by (auto simp: generate_questions_from_pdf_def Let_def
             dest!: generate_per_type_connection_errors_result
             split: option.splits if_splits sum.splits prod.splits)
  show "r \<noteq> Inl (HTTPException 503)"
    using assms g
    by (auto simp: generate_questions_from_pdf_def Let_def format_results_def
             split: option.splits if_splits sum.splits prod.splits)
qed

text \<open>
  C4. When an embedding call fails (a status other than 200, or any exception), it
  returns the empty vector and leaves the flag set. From then on every sequence of
  embedding calls returns empty vectors only and leaves the process state as it is:
  the flag stays set and nothing is posted. The same holds in every later state in
  which the flag is set, and a whole run of the pipeline started in such a state ends
  with the flag set and without any embedding request.
\<close>

theorem embedding_breaker_latch:
  assumes "\<not> embeddings_api_failed w"
    and "embedding_fails (embeddings_backend w (length (embeddings_posts w)))"
    and "get_embedding w failing = (embedding, w')"
  shows "embedding = [] \<and> embeddings_api_failed w' \<and>
         (\<forall>texts. get_embeddings w' texts = (map (\<lambda>_. []) texts, w')) \<and>
         (\<forall>later t. embeddings_api_failed later \<longrightarrow> get_embedding later t = ([], later)) \<and>
         (\<forall>later cleaned n qtypes inc r g after.
            embeddings_api_failed later \<and>
            generate_questions_from_pdf fl later cleaned n qtypes inc = Some (r, g, after) \<longrightarrow>
            embeddings_api_failed after \<and> embeddings_posts after = embeddings_posts later)"
proof -
  from get_embedding_failure[OF assms(1,2), of failing] assms(3)
  have e: "embedding = []" and f: "embeddings_api_failed w'" by simp_all
  from f have "\<And>texts. get_embeddings w' texts = (map (\<lambda>_. []) texts, w')"
    by (rule get_embeddings_tripped)
  with e f pipeline_tripped show ?thesis by (simp add: get_embedding_tripped) blast
qed

theorem embedding_breaker_latch_witness:
  "\<not> embeddings_api_failed failing_once \<and>
   embedding_fails (embeddings_backend failing_once (length (embeddings_posts failing_once))) \<and>
   fst (get_embedding failing_once ''query'') = [] \<and>
   embeddings_api_failed (snd (get_embedding failing_once ''query'')) \<and>
   get_embeddings (snd (get_embedding failing_once ''query'')) [''one'', ''two''] =
     ([[], []], snd (get_embedding failing_once ''query''))"
proof -
  have h1: "\<not> embeddings_api_failed failing_once" by (simp add: failing_once_def)
  have h2: "embedding_fails (embeddings_backend failing_once (length (embeddings_posts failing_once)))"
    by (simp add: failing_once_def embedding_fails_def)
  have h3: "get_embedding failing_once ''query'' =
              (fst (get_embedding failing_once ''query''), snd (get_embedding failing_once ''query''))"
    by simp
  from embedding_breaker_latch[OF h1 h2 h3]
  have "fst (get_embedding failing_once ''query'') = []"
    and "embeddings_api_failed (snd (get_embedding failing_once ''query''))"
    and "get_embeddings (snd (get_embedding failing_once ''query'')) [''one'', ''two''] =
           (map (\<lambda>_. []) [''one'', ''two''], snd (get_embedding failing_once ''query''))"
    by blast+
  with h1 h2 show ?thesis by simp
qed

section \<open>Cosine similarity: results\<close>









section \<open>Retrieval: results\<close>

lemma comprehension_total:
  assumes "\<And>x. x \<in> set xs \<Longrightarrow> f x = Inr (h x)"
  shows "comprehension f xs = Inr (map h xs)"
  using assms by (induction xs) simp_all

lemma evenly_step:
  assumes "1 \<le> top_k" "top_k < int (length chunks)" "i < nat top_k"
  shows "i * (length chunks div nat top_k) < length chunks"
proof -
  let ?k = "nat top_k" and ?n = "length chunks"
  have k: "0 < ?k" using assms(1) by simp
  have "i * (?n div ?k) < ?k * (?n div ?k)"
  proof -
    have "?k \<le> ?n" using assms by linarith
    then have "0 < ?n div ?k" using k by (simp add: div_greater_zero_iff)
    then show ?thesis using assms(3) by simp
  qed
  also have "\<dots> \<le> ?n" by simp
  finally show ?thesis .
qed

text \<open>
  C7. For a non-empty list of chunks and \<open>top_k \<ge> 1\<close>, when the query has no embedding
  the selector makes no further embedding call and returns all the chunks unchanged
  if there are at most \<open>top_k\<close> of them, and otherwise exactly the \<open>top_k\<close> chunks at
  the indices \<open>0, step, \<dots>, (top_k - 1) * step\<close> with \<open>step = len(chunks) // top_k\<close>;
  these indices are in bounds and strictly increasing, so document order is kept.
\<close>

theorem fallback_selection:
  assumes "chunks \<noteq> []" "1 \<le> top_k" "fst (get_embedding w query) = []"
  shows "fst (retrieve_relevant_chunks fl w chunks query top_k) =
           (if int (length chunks) \<le> top_k then Inr chunks
            else Inr (map (\<lambda>i. chunks ! (i * (length chunks div nat top_k))) [0..<nat top_k])) \<and>
         snd (retrieve_relevant_chunks fl w chunks query top_k) = snd (get_embedding w query) \<and>
         (top_k < int (length chunks) \<longrightarrow>
            (\<forall>i<nat top_k. i * (length chunks div nat top_k) < length chunks) \<and>
            (\<forall>i j. i < j \<longrightarrow> i * (length chunks div nat top_k) < j * (length chunks div nat top_k)))"
proof -
  let ?step = "length chunks div nat top_k"
  obtain e w' where ge: "get_embedding w query = (e, w')" by (cases "get_embedding w query")
  with assms(3) have e: "e = []" by simp
  have fb: "fst (retrieve_relevant_chunks fl w chunks query top_k) = evenly_distributed chunks top_k"
    using ge e by (simp add: retrieve_relevant_chunks_def)
  have sw: "snd (retrieve_relevant_chunks fl w chunks query top_k) = snd (get_embedding w query)"
    using ge e by (simp add: retrieve_relevant_chunks_def)
  have res: "fst (retrieve_relevant_chunks fl w chunks query top_k) =
           (if int (length chunks) \<le> top_k then Inr chunks
            else Inr (map (\<lambda>i. chunks ! (i * ?step)) [0..<nat top_k]))"
  proof (cases "int (length chunks) \<le> top_k")
    case True
    then show ?thesis by (simp add: fb evenly_distributed_def)
  next
    case False
    then have lt: "top_k < int (length chunks)" by simp
    have st: "int (length chunks) div top_k = int ?step"
      using assms(2) by (simp add: zdiv_int)
    have "comprehension (\<lambda>i. py_index chunks (i * int ?step)) (py_range top_k) =
          Inr (map (\<lambda>i. chunks ! nat (i * int ?step)) (py_range top_k))"
    proof (rule comprehension_total)
      fix x assume "x \<in> set (py_range top_k)"
      then obtain i where i: "i < nat top_k" "x = int i" by (auto simp: py_range_def)
      have "i * ?step < length chunks" by (rule evenly_step[OF assms(2) lt i(1)])
      then have "int i * int ?step < int (length chunks)"
        by (metis of_nat_mult of_nat_less_iff)
      moreover have "(int i * int ?step < 0) = False" by (simp add: mult_less_0_iff)
      ultimately show "py_index chunks (x * int ?step) = Inr (chunks ! nat (x * int ?step))"
        using i by (simp add: py_index_def Let_def)
    qed
    moreover have "map (\<lambda>i. chunks ! nat (i * int ?step)) (py_range top_k) =
                   map (\<lambda>i. chunks ! (i * ?step)) [0..<nat top_k]"
      by (simp add: py_range_def comp_def nat_mult_distrib)
    ultimately show ?thesis
      using False assms(2) by (simp add: fb evenly_distributed_def py_floordiv_def st)
  qed
  have ord: "(\<forall>i<nat top_k. i * ?step < length chunks) \<and> (\<forall>i j. i < j \<longrightarrow> i * ?step < j * ?step)"
    if lt: "top_k < int (length chunks)"
  proof -
    have "nat top_k \<le> length chunks" using lt by linarith
    then have "0 < ?step" using assms(2) by (simp add: div_greater_zero_iff)
    then show ?thesis using evenly_step[OF assms(2) lt] by simp
  qed
  from res sw ord show ?thesis by blast
qed

theorem fallback_selection_witness:
  "\<forall>fl :: 'f floats. [''a'', ''b'', ''c'', ''d'', ''e''] \<noteq> [] \<and> (1::int) \<le> 2 \<and>
     fst (get_embedding (tripped :: 'f world) ''query'') = [] \<and>
     fst (retrieve_relevant_chunks fl tripped [''a'', ''b'', ''c'', ''d'', ''e''] ''query'' 2) =
       Inr [''a'', ''c''] \<and>
     fst (retrieve_relevant_chunks fl tripped [''a'', ''b''] ''query'' 2) = Inr [''a'', ''b'']"
proof
  fix fl :: "'f floats"
  have h: "fst (get_embedding (tripped :: 'f world) ''query'') = []"
    by (simp add: get_embedding_def tripped_def)
  have n: "[0..<nat 2] = [0, 1]" by (simp add: upt_conv_Cons)
  from fallback_selection[where chunks = "[''a'', ''b'', ''c'', ''d'', ''e'']" and top_k = 2
         and w = tripped and query = "''query''" and fl = fl, OF _ _ h]
       fallback_selection[where chunks = "[''a'', ''b'']" and top_k = 2
         and w = tripped and query = "''query''" and fl = fl, OF _ _ h] h n
  show "[''a'', ''b'', ''c'', ''d'', ''e''] \<noteq> [] \<and> (1::int) \<le> 2 \<and>
     fst (get_embedding (tripped :: 'f world) ''query'') = [] \<and>
     fst (retrieve_relevant_chunks fl tripped [''a'', ''b'', ''c'', ''d'', ''e''] ''query'' 2) =
       Inr [''a'', ''c''] \<and>
     fst (retrieve_relevant_chunks fl tripped [''a'', ''b''] ''query'' 2) = Inr [''a'', ''b'']"
    by simp
qed

section \<open>The parser of multiple-choice segments: results\<close>

lemma of_char_lt: "(of_char c :: nat) < 256"
  by (cases c) (simp add: of_char_Char horner_sum_eq_sum)

lemma py_lower_paren: "py_lower_char CHR '')'' = CHR '')''"
  by (simp add: py_lower_char_def)

lemma ci_eq_paren: "ci_eq p CHR '')'' = (p = CHR '')'')"
proof -
  have n: "(of_char p :: nat) < 256" by (rule of_char_lt)
  show ?thesis
    unfolding ci_eq_def py_lower_paren
    using n by (auto simp: py_lower_char_def Let_def char_of_eq_iff take_bit_eq_mod)
qed

lemma lazy_group_some:
  assumes "ahead []" "s \<noteq> []"
  shows "lazy_group ahead s \<noteq> None"
  using assms(2)
proof (induction s)
  case Nil
  then show ?case by simp
next
  case (Cons c cs)
  show ?case
  proof (cases "ahead cs")
    case True
    then show ?thesis by simp
  next
    case False
    with assms(1) have "cs \<noteq> []" by auto
    with Cons.IH False show ?thesis by auto
  qed
qed

lemma spaces_then_group_some:
  assumes "ahead []" "s \<noteq> []" "k \<le> length s"
  shows "spaces_then_group ahead s k \<noteq> None"
  using assms(3)
proof (induction k)
  case 0
  then show ?case using lazy_group_some[of ahead s] assms(1,2) by simp
next
  case (Suc k)
  then have "spaces_then_group ahead s k \<noteq> None" by simp
  then show ?case by (simp split: option.splits)
qed

lemma spaces_group_iff:
  assumes "ahead []"
  shows "(spaces_group ahead s \<noteq> None) = (s \<noteq> [])"
proof (cases "s = []")
  case True
  then show ?thesis by (simp add: spaces_group_def)
next
  case False
  have "length (takeWhile is_space s) \<le> length s" by (rule length_takeWhile_le)
  with spaces_then_group_some[of ahead s "length (takeWhile is_space s)"] assms False show ?thesis
    by (simp add: spaces_group_def)
qed

lemma after_option_Nil: "after_option []"
  by (simp add: after_option_def at_end_def)

lemma search_option_iff: "(search_option letter s \<noteq> None) = option_present letter s"
proof (induction letter s rule: option_present.induct)
  case (1 letter c p x rest)
  have "spaces_group after_option (x # rest) \<noteq> None"
    using spaces_group_iff[of after_option "x # rest"] after_option_Nil by simp
  then show ?case using 1 by (auto simp: ci_eq_paren split: option.splits)
qed (auto simp: spaces_group_def split: option.splits)

lemma options_length_four:
  "(length (concat (map (\<lambda>letter. case search_option letter part of
                            Some g \<Rightarrow> [(letter, py_strip g)] | None \<Rightarrow> []) ''ABCD'')) = 4) =
   (search_option CHR ''A'' part \<noteq> None \<and> search_option CHR ''B'' part \<noteq> None \<and>
    search_option CHR ''C'' part \<noteq> None \<and> search_option CHR ''D'' part \<noteq> None)"
  by (auto split: option.splits)

lemma parse_mcq_some_iff:
  "(parse_mcq part with_answers \<noteq> None) =
   (lazy_group starts_option part \<noteq> None \<and>
    option_present CHR ''A'' part \<and> option_present CHR ''B'' part \<and>
    option_present CHR ''C'' part \<and> option_present CHR ''D'' part)"
  unfolding search_option_iff[symmetric] options_length_four[symmetric, of part]
  by (simp add: parse_mcq_def Let_def split: option.splits)

text \<open>
  C8, at its failing input: a segment with the lines \<open>A)\<close>, \<open>B)\<close> and \<open>C)\<close> and no
  line for option D, whose question holds the word \<open>(standard)\<close>. The pattern of
  option D matches the \<open>d)\<close> inside the question, so the segment is not dropped: it
  is returned with the rest of the question as its option D. By \<open>parse_mcq_some_iff\<close>
  this happens whenever each of the four letters, in either case, stands directly
  before a closing parenthesis and one more character anywhere in the segment.
\<close>

theorem segment_without_D_line_accepted:
  "parse_mcq segment_with_aside False =
     Some ''Question: Which method (standard) is used?\<newline>A) x\<newline>B) y\<newline>C) z\<newline>D) is used?'' \<and>
   parse_response ''mcq'' False (''Q: '' @ segment_with_aside) =
     [''Question: Which method (standard) is used?\<newline>A) x\<newline>B) y\<newline>C) z\<newline>D) is used?'']"
  by code_simp

section \<open>Runs of the pipeline: results\<close>

lemma parse_five: "parse_response ''truefalse'' False five_statements =
   [''Question: s1'', ''Question: s2'', ''Question: s3'', ''Question: s4'', ''Question: s5'']"
  by code_simp

lemma run_chunks: "chunk_text ''Rivers flow to the sea.'' 1500 150 = Some [''Rivers flow to the sea.'']"
  by (simp add: chunk_text_def)

lemma run_types:
  "normalize_types [] (map (\<lambda>qtype. py_lower (py_strip qtype)) (split_comma [] ''mcq,trueFalse'')) =
     [''mcq'', ''truefalse'']"
  by code_simp

lemma run_retrieve:
  "retrieve_relevant_chunks fl refusing_then_five [t] q 1 =
     (Inr [t], refusing_then_five\<lparr>embeddings_api_failed := True, embeddings_posts := [py_prefix q 2000]\<rparr>)"
  by (simp add: retrieve_relevant_chunks_def get_embedding_def refusing_then_five_def
        evenly_distributed_def Let_def)

lemma run_numbered: "py_join [newline, newline] (numbered 0
     [''Question: s1'', ''Question: s2'', ''Question: s3'', ''Question: s4'', ''Question: s5'']) =
   ''1. Question: s1\<newline>\<newline>2. Question: s2\<newline>\<newline>3. Question: s3\<newline>\<newline>4. Question: s4\<newline>\<newline>5. Question: s5''"
  by code_simp

lemma run_first_batch:
  assumes "generate_posts w = []" "generate_backend w = generate_backend refusing_then_five"
  shows "generate_question_batch w ctx ''mcq'' 5 prev False 120 =
           (Inr [], w\<lparr>generate_posts := [(''mcq'', 5, False, py_prefix ctx 1500)]\<rparr>)"
  using assms
  by (simp add: generate_question_batch_def generate_inner_def generate_try_def
        refusing_then_five_def)

lemma run_second_batch:
  assumes "generate_posts w = [p]" "generate_backend w = generate_backend refusing_then_five"
  shows "generate_question_batch w ctx ''truefalse'' 5 prev False 120 =
           (Inr [''Question: s1'', ''Question: s2'', ''Question: s3'', ''Question: s4'',
                 ''Question: s5''],
            w\<lparr>generate_posts := [p, (''truefalse'', 5, False, py_prefix ctx 1500)]\<rparr>)"
  using assms
  by (simp add: generate_question_batch_def generate_inner_def generate_try_def
        refusing_then_five_def parse_five py_prefix_def py_bound_def)

lemma run_loop:
  assumes "generate_posts w = []" "generate_backend w = generate_backend refusing_then_five"
  shows "generate_per_type w ctx False 5
           \<lparr>all_questions = [], previous_questions = {}, connection_errors = [], remaining = 0\<rparr>
           [''mcq'', ''truefalse''] =
         (\<lparr>all_questions = [''Question: s1'', ''Question: s2'', ''Question: s3'',
                            ''Question: s4'', ''Question: s5''],
           previous_questions = set (map (\<lambda>q. py_prefix q 100)
              [''Question: s1'', ''Question: s2'', ''Question: s3'', ''Question: s4'',
               ''Question: s5'']),
           connection_errors = [], remaining = 0\<rparr>,
          w\<lparr>generate_posts := [(''mcq'', 5, False, py_prefix ctx 1500),
                                (''truefalse'', 5, False, py_prefix ctx 1500)]\<rparr>)"
proof -
  let ?w1 = "w\<lparr>generate_posts := [(''mcq'', 5, False, py_prefix ctx 1500)]\<rparr>"
  have q: "questions_to_generate 5 0 = (5, 0)" by (simp add: questions_to_generate_def)
  have b1: "\<And>prev. generate_question_batch w ctx ''mcq'' 5 prev False 120 = (Inr [], ?w1)"
    by (rule run_first_batch[OF assms])
  have b2: "\<And>prev. generate_question_batch ?w1 ctx ''truefalse'' 5 prev False 120 =
           (Inr [''Question: s1'', ''Question: s2'', ''Question: s3'', ''Question: s4'',
                 ''Question: s5''],
            ?w1\<lparr>generate_posts := [(''mcq'', 5, False, py_prefix ctx 1500),
                                  (''truefalse'', 5, False, py_prefix ctx 1500)]\<rparr>)"
    by (rule run_second_batch) (simp_all add: assms)
  show ?thesis by (simp add: q b1 b2)
qed

text \<open>
  C2, at its failing input: ten questions of the types \<open>mcq,trueFalse\<close>, the first
  generation request refused, the second answered with five statements. The run
  succeeds with exactly the five questions, both types were requested with a quota of
  five, and \<open>connection_errors\<close> is empty at the end: the refused connection is
  recorded nowhere.
\<close>

theorem connection_error_not_recorded:
  "\<forall>fl. map_option (\<lambda>(r, g, w). (r, all_questions g, connection_errors g,
                             map (\<lambda>(q_type, n, _, _). (q_type, n)) (generate_posts w)))
     (generate_questions_from_pdf fl refusing_then_five ''Rivers flow to the sea.'' 10
        ''mcq,trueFalse'' False) =
   Some (Inr \<lparr>questions = ''1. Question: s1\<newline>\<newline>2. Question: s2\<newline>\<newline>3. Question: s3\<newline>\<newline>4. Question: s4\<newline>\<newline>5. Question: s5'',
              count = 5, types = [''mcq'', ''truefalse''], include_answers = False\<rparr>,
         [''Question: s1'', ''Question: s2'', ''Question: s3'', ''Question: s4'', ''Question: s5''],
         [],
         [(''mcq'', 5), (''truefalse'', 5)])"
proof -
  let ?w1 = "refusing_then_five\<lparr>embeddings_api_failed := True,
     embeddings_posts := [py_prefix ''Generate questions about the main topics and key concepts'' 2000]\<rparr>"
  have k: "min 3 (int (length [''Rivers flow to the sea.''])) = 1" by simp
  have per: "questions_per_type 10 [''mcq'', ''truefalse''] = 5"
    "remaining_init 10 [''mcq'', ''truefalse''] = 0"
    by (simp_all add: questions_per_type_def remaining_init_def)
  have j: "py_join [newline, newline] [''Rivers flow to the sea.''] = ''Rivers flow to the sea.''"
    by simp
  have loop: "generate_per_type ?w1 ''Rivers flow to the sea.'' False 5
           \<lparr>all_questions = [], previous_questions = {}, connection_errors = [], remaining = 0\<rparr>
           [''mcq'', ''truefalse''] =
         (\<lparr>all_questions = [''Question: s1'', ''Question: s2'', ''Question: s3'',
                            ''Question: s4'', ''Question: s5''],
           previous_questions = set (map (\<lambda>q. py_prefix q 100)
              [''Question: s1'', ''Question: s2'', ''Question: s3'', ''Question: s4'',
               ''Question: s5'']),
           connection_errors = [], remaining = 0\<rparr>,
          ?w1\<lparr>generate_posts := [(''mcq'', 5, False, py_prefix ''Rivers flow to the sea.'' 1500),
                                (''truefalse'', 5, False, py_prefix ''Rivers flow to the sea.'' 1500)]\<rparr>)"
    by (rule run_loop) (simp_all add: refusing_then_five_def)
  show ?thesis
    unfolding generate_questions_from_pdf_def Let_def run_chunks run_types
    by (simp add: Let_def k per run_retrieve j loop format_results_def run_numbered
          del: generate_per_type.simps py_join.simps numbered.simps)
qed

text \<open>
  The quotas of \<open>plan\<close> are the numbers of questions that a run of the pipeline asks
  the generation backend for, one request for each type in order.
\<close>

lemma generate_per_type_requests:
  "map (\<lambda>post. fst (snd post)) (generate_posts (snd (generate_per_type w ctx inc per g ts))) =
     map (\<lambda>post. fst (snd post)) (generate_posts w) @ quota_walk per (remaining g) ts"
proof (induction ts arbitrary: w g)
  case Nil
  then show ?case by simp
next
  case (Cons q_type ts)
  obtain n r where q: "questions_to_generate per (remaining g) = (n, r)"
    by (cases "questions_to_generate per (remaining g)")
  obtain res w' where b: "generate_question_batch w ctx q_type n (previous_questions g) inc 120 = (res, w')"
    by (cases "generate_question_batch w ctx q_type n (previous_questions g) inc 120")
  from generate_question_batch_world[of w ctx q_type n "previous_questions g" inc 120] b
  have w': "generate_posts w' = generate_posts w @ [(q_type, n, inc, py_prefix ctx 1500)]"
    by simp
  from generate_question_batch_total[of w ctx q_type n "previous_questions g" inc 120] b
  obtain qs where "res = Inr qs" by auto
  with q b w' show ?case by (simp add: Cons.IH)
qed


lemma get_embedding_generate_posts:
  "generate_posts (snd (get_embedding w t)) = generate_posts w"
  by (simp add: get_embedding_def Let_def split: reply.splits body.splits)

lemma chunk_embeddings_generate_posts:
  "generate_posts (snd (chunk_embeddings w i chunks)) = generate_posts w"
proof (induction chunks arbitrary: w i)
  case Nil
  then show ?case by simp
next
  case (Cons c chunks)
  obtain e w1 where g: "get_embedding w c = (e, w1)" by (cases "get_embedding w c")
  with get_embedding_generate_posts[of w c] have "generate_posts w1 = generate_posts w" by simp
  moreover obtain rest w2 where r: "chunk_embeddings w1 (Suc i) chunks = (rest, w2)"
    by (cases "chunk_embeddings w1 (Suc i) chunks")
  ultimately show ?case using g Cons.IH[of w1 "Suc i"] by simp
qed

lemma retrieve_generate_posts:
  "generate_posts (snd (retrieve_relevant_chunks fl w chunks q k)) = generate_posts w"
proof -
  obtain e w1 where g: "get_embedding w q = (e, w1)" by (cases "get_embedding w q")
  with get_embedding_generate_posts[of w q] have w1: "generate_posts w1 = generate_posts w" by simp
  obtain em w2 where c: "chunk_embeddings w1 0 chunks = (em, w2)"
    by (cases "chunk_embeddings w1 0 chunks")
  with chunk_embeddings_generate_posts[of w1 0 chunks] w1
  have "generate_posts w2 = generate_posts w" by simp
  with g c w1 show ?thesis
    by (simp add: retrieve_relevant_chunks_def split: sum.splits)
qed

lemma pipeline_requests_follow_plan:
  assumes "generate_questions_from_pdf fl w cleaned n requested inc = Some (Inr r, g, w')"
  shows "map (\<lambda>post. fst (snd post)) (generate_posts w') =
           map (\<lambda>post. fst (snd post)) (generate_posts w) @ plan n (types r)"
proof -
  obtain chunks where c: "chunk_text cleaned 1500 150 = Some chunks"
    using assms by (auto simp: generate_questions_from_pdf_def split: option.splits)
  let ?ts = "normalize_types [] (map (\<lambda>qtype. py_lower (py_strip qtype)) (split_comma [] requested))"
  let ?q = "''Generate questions about the main topics and key concepts''"
  let ?k = "min 3 (int (length chunks))"
  obtain rel w1 where rr: "retrieve_relevant_chunks fl w chunks ?q ?k = (rel, w1)"
    by (cases "retrieve_relevant_chunks fl w chunks ?q ?k")
  with retrieve_generate_posts[of fl w chunks ?q ?k] have w1: "generate_posts w1 = generate_posts w"
    by simp
  from assms c rr obtain ctx where
    l: "generate_per_type w1 ctx inc (questions_per_type n ?ts)
          \<lparr>all_questions = [], previous_questions = {}, connection_errors = [],
            remaining = remaining_init n ?ts\<rparr> ?ts = (g, w')"
    and r: "r = \<lparr>questions = py_join [newline, newline] (numbered 0 (all_questions g)),
               count = length (all_questions g), types = ?ts, include_answers = inc\<rparr>"
    by (auto simp: generate_questions_from_pdf_def Let_def format_results_def
             split: if_splits sum.splits prod.splits)
  let ?g0 = "\<lparr>all_questions = [], previous_questions = {}, connection_errors = [],
            remaining = remaining_init n ?ts\<rparr>"
  from generate_per_type_requests[of w1 ctx inc "questions_per_type n ?ts" ?g0 ?ts] l w1
  show ?thesis by (simp add: r plan_def)
qed

text \<open>
  C10. \<open>generate_question_batch\<close> never raises: for every input it returns a list,
  of at most \<open>num_questions\<close> questions (for a count \<open>num_questions \<ge> 0\<close>; the caller
  passes at least 1). A connection error, a timeout, any other exception, status 404,
  any other status than 200 and an undecodable body all give the empty list. So the connection-error handler of the
  caller is never entered: the loop over the types leaves \<open>connection_errors\<close> as it
  is, and a run of the pipeline ends with it empty and never with status 503.
\<close>

theorem batch_generation_never_raises:
  "(\<exists>batch. fst (generate_question_batch w chunk q_type n prev inc timeout) = Inr batch \<and>
             (0 \<le> n \<longrightarrow> int (length batch) \<le> n)) \<and>
   ((\<forall>payload. generate_backend w (length (generate_posts w)) = Status 200 payload \<longrightarrow>
                payload = Undecodable) \<longrightarrow>
      fst (generate_question_batch w chunk q_type n prev inc timeout) = Inr []) \<and>
   connection_errors (fst (generate_per_type w context_text inc per_type g qtypes)) =
     connection_errors g \<and>
   (\<forall>cleaned_text total requested r g' w'.
      generate_questions_from_pdf fl w cleaned_text total requested inc = Some (r, g', w') \<longrightarrow>
      connection_errors g' = [] \<and> r \<noteq> Inl (HTTPException 503))"
proof (intro conjI impI allI)
  show "\<exists>batch. fst (generate_question_batch w chunk q_type n prev inc timeout) = Inr batch \<and>
             (0 \<le> n \<longrightarrow> int (length batch) \<le> n)"
    by (rule generate_question_batch_total)
next
  assume "\<forall>payload. generate_backend w (length (generate_posts w)) = Status 200 payload \<longrightarrow>
                payload = Undecodable"
  then have "\<not> (\<exists>payload. generate_backend w (length (generate_posts w)) = Status 200 payload \<and>
                         payload \<noteq> Undecodable)" by blast
  then show "fst (generate_question_batch w chunk q_type n prev inc timeout) = Inr []"
    by (rule generate_question_batch_empty)
next
  show "connection_errors (fst (generate_per_type w context_text inc per_type g qtypes)) =
     connection_errors g"
    by (rule generate_per_type_connection_errors)
next
  fix cleaned_text total requested r g' w'
  assume a: "generate_questions_from_pdf fl w cleaned_text total requested inc = Some (r, g', w')"
  show "connection_errors g' = []" by (rule pipeline_connection_errors(1)[OF a])
  show "r \<noteq> Inl (HTTPException 503)" by (rule pipeline_connection_errors(2)[OF a])
qed

theorem batch_generation_never_raises_witness:
  "(0::int) \<le> 5 \<and>
   generate_backend (refusing_then_five :: 'f world)
       (length (generate_posts (refusing_then_five :: 'f world))) =
     Raises (ConnectError ''refused'') \<and>
   fst (generate_question_batch (refusing_then_five :: 'f world) ''context'' ''mcq'' 5 {} False 120) =
     Inr [] \<and>
   (\<exists>batch. fst (generate_question_batch (two_statements :: 'f world) ''context'' ''truefalse'' 1 {}
                     False 120) = Inr batch \<and> int (length batch) \<le> 1)"
proof -
  have r: "generate_backend (refusing_then_five :: 'f world)
       (length (generate_posts (refusing_then_five :: 'f world))) =
     Raises (ConnectError ''refused'')" by (simp add: refusing_then_five_def)
  then have h: "\<forall>payload. generate_backend (refusing_then_five :: 'f world)
                    (length (generate_posts (refusing_then_five :: 'f world)))
                  = Status 200 payload \<longrightarrow> payload = Undecodable" by simp
  from batch_generation_never_raises[where w = "refusing_then_five :: 'f world"
         and chunk = "''context''" and q_type = "''mcq''" and n = 5 and prev = "{}"
         and inc = False and timeout = 120] h
  have a: "fst (generate_question_batch (refusing_then_five :: 'f world) ''context'' ''mcq'' 5 {}
                  False 120) = Inr []"
    by blast
  from batch_generation_never_raises[where w = "two_statements :: 'f world"
         and chunk = "''context''" and q_type = "''truefalse''" and n = 1 and prev = "{}"
         and inc = False and timeout = 120]
  have b: "\<exists>batch. fst (generate_question_batch (two_statements :: 'f world) ''context''
                          ''truefalse'' 1 {} False 120) = Inr batch \<and> int (length batch) \<le> 1"
    by simp
  from r a b show ?thesis by simp
qed

end
